theory Spec2Isabelle
  imports Main "HOL-Library.Sublist" "HOL-Library.Multiset"
begin

section \<open>The map-reduce pipeline of \<^verbatim>\<open>scale_map.py\<close>\<close>

text \<open>
  The program counts integers in the files of a data directory (\<^verbatim>\<open>mapper\<close>, run in a
  process pool by \<^verbatim>\<open>run_mappers\<close>), stores one JSON document per file in an output
  directory, and sums the documents into one table of which the six most frequent entries
  are reported (\<^verbatim>\<open>reducer\<close>). \<^verbatim>\<open>main\<close> runs the two stages one after the other.

  Conventions of the embedding.
  \<^item> Text is a \<open>string\<close>; a \<open>char\<close> stands for a code point below 256. Among those,
    the decimal digits are \<open>0\<close> to \<open>9\<close> and the white space of \<^verbatim>\<open>str.strip\<close> and
    \<^verbatim>\<open>int\<close> is 9 to 13, 28 to 32, 133 and 160.
  \<^item> Python integers are \<open>int\<close>. The interpreter's limit on the number of digits in
    conversions between \<^verbatim>\<open>int\<close> and \<^verbatim>\<open>str\<close> is not modelled.
  \<^item> A \<^verbatim>\<open>dict\<close> keeps its keys in the order of their first insertion, so it is an
    association list with distinct keys.
  \<^item> An exception that the program does not catch ends the run: a function that can
    raise returns \<open>exn + 'a\<close>, with \<open>Inl\<close> the exception.
  \<^item> What a function prints is returned as a list of lines.
\<close>

subsection \<open>Exceptions\<close>

datatype exn =
    FileNotFoundError
  | PermissionError
  | IsADirectoryError
  | UnicodeDecodeError
  | JSONDecodeError
  | ValueError
  | TypeError
  | AttributeError
  | FileExistsError
  | NotADirectoryError
  | OSError
  | BrokenProcessPool

subsection \<open>Strings and integers\<close>

definition isspace :: "char \<Rightarrow> bool" where
  "isspace c =
     (let n = (of_char c :: nat)
      in (9 \<le> n \<and> n \<le> 13) \<or> (28 \<le> n \<and> n \<le> 32) \<or> n = 133 \<or> n = 160)"

definition strip :: "string \<Rightarrow> string" where
  "strip s = rev (dropWhile isspace (rev (dropWhile isspace s)))"

definition isdigit :: "char \<Rightarrow> bool" where
  "isdigit c = (let n = (of_char c :: nat) in 48 \<le> n \<and> n \<le> 57)"

definition digit_val :: "char \<Rightarrow> nat" where
  "digit_val c = of_char c - 48"

definition digit_char :: "nat \<Rightarrow> char" where
  "digit_char d = char_of (48 + d)"

text \<open>
  The digits of \<^verbatim>\<open>int(s)\<close> in base ten: one digit at least, and single underscores
  between digits only. \<open>int_digits acc cs\<close> reads what follows a digit.
\<close>

fun int_digits :: "nat \<Rightarrow> string \<Rightarrow> nat option" where
  "int_digits acc [] = Some acc"
| "int_digits acc [c] = (if isdigit c then Some (acc * 10 + digit_val c) else None)"
| "int_digits acc (c # d # cs) =
     (if isdigit c then int_digits (acc * 10 + digit_val c) (d # cs)
      else if c = CHR ''_'' \<and> isdigit d then int_digits (acc * 10 + digit_val d) cs
      else None)"

definition int_magnitude :: "string \<Rightarrow> nat option" where
  "int_magnitude s =
     (case s of
        [] \<Rightarrow> None
      | c # cs \<Rightarrow> if isdigit c then int_digits (digit_val c) cs else None)"

text \<open>
  \<^verbatim>\<open>int(s)\<close> for a string: white space around the number is dropped, a sign may come
  first, and \<open>None\<close> stands for \<^verbatim>\<open>ValueError\<close>.
\<close>

definition py_int :: "string \<Rightarrow> int option" where
  "py_int s =
     (case strip s of
        [] \<Rightarrow> None
      | c # cs \<Rightarrow>
          if c = CHR ''-'' then map_option (\<lambda>n. - int n) (int_magnitude cs)
          else if c = CHR ''+'' then map_option int (int_magnitude cs)
          else map_option int (int_magnitude (c # cs)))"

fun dec_nat :: "nat \<Rightarrow> string" where
  "dec_nat n = (if n < 10 then [digit_char n] else dec_nat (n div 10) @ [digit_char (n mod 10)])"

declare dec_nat.simps [simp del]

text \<open>\<^verbatim>\<open>str(i)\<close>, also what an f-string and \<^verbatim>\<open>json.dump\<close> write for an integer.\<close>

definition py_str :: "int \<Rightarrow> string" where
  "py_str i = (if i < 0 then CHR ''-'' # dec_nat (nat (- i)) else dec_nat (nat i))"

subsection \<open>Dictionaries of counts\<close>

type_synonym counts = "(int \<times> int) list"

text \<open>\<^verbatim>\<open>d[k] += c\<close> on a \<^verbatim>\<open>defaultdict(int)\<close>: a new key starts at 0, at the end.\<close>

fun dict_add :: "counts \<Rightarrow> int \<Rightarrow> int \<Rightarrow> counts" where
  "dict_add [] k c = [(k, 0 + c)]"
| "dict_add ((k', v) # d) k c =
     (if k' = k then (k', v + c) # d else (k', v) # dict_add d k c)"

subsection \<open>Reading a text file\<close>

text \<open>
  A file opened in text mode turns \<^verbatim>\<open>\r\n\<close> and \<^verbatim>\<open>\r\<close> into \<^verbatim>\<open>\n\<close>, and iterating
  over it yields the lines, each with its newline.
\<close>

fun universal_newlines :: "string \<Rightarrow> string" where
  "universal_newlines [] = []"
| "universal_newlines [c] = (if c = CHR 0x0D then [CHR 0x0A] else [c])"
| "universal_newlines (c # d # cs) =
     (if c = CHR 0x0D \<and> d = CHR 0x0A then CHR 0x0A # universal_newlines cs
      else if c = CHR 0x0D then CHR 0x0A # universal_newlines (d # cs)
      else c # universal_newlines (d # cs))"

fun file_lines :: "string \<Rightarrow> string list" where
  "file_lines [] = []"
| "file_lines (c # cs) =
     (if c = CHR 0x0A then [c] # file_lines cs
      else (case file_lines cs of [] \<Rightarrow> [[c]] | l # ls \<Rightarrow> (c # l) # ls))"

subsection \<open>The mapper\<close>

text \<open>
  The loop of \<^verbatim>\<open>mapper\<close> over the lines of the file: a line that \<^verbatim>\<open>int\<close> rejects is
  skipped.
\<close>

fun count_lines :: "string list \<Rightarrow> counts \<Rightarrow> counts" where
  "count_lines [] counts = counts"
| "count_lines (line # rest) counts =
     (case py_int (strip line) of
        Some num \<Rightarrow> count_lines rest (dict_add counts num 1)
      | None \<Rightarrow> count_lines rest counts)"

text \<open>
  \<open>open_text path\<close> is what opening the file at \<open>path\<close> and reading it as text does:
  it raises, or gives the text. \<^verbatim>\<open>mapper\<close> catches \<^verbatim>\<open>FileNotFoundError\<close> and nothing
  else.
\<close>

type_synonym files = "string \<Rightarrow> exn + string"

definition mapper :: "files \<Rightarrow> string \<Rightarrow> exn + (string list \<times> counts)" where
  "mapper open_text file_path =
     (case open_text file_path of
        Inr text \<Rightarrow>
          Inr ([''Mapper started for '' @ file_path, ''Mapper finished for '' @ file_path],
               count_lines (file_lines (universal_newlines text)) [])
      | Inl e \<Rightarrow>
          if e = FileNotFoundError
          then Inr ([''Mapper started for '' @ file_path,
                     ''Error: File not found at '' @ file_path], [])
          else Inl e)"

subsection \<open>Paths and directories\<close>

text \<open>
  \<^verbatim>\<open>os.path.join\<close> with a relative second part. The directories are taken to be named
  without pattern characters and without repeated slashes at the end, so that
  \<^verbatim>\<open>glob\<close> returns the joined paths of the names it matches.
\<close>

definition path_join :: "string \<Rightarrow> string \<Rightarrow> string" where
  "path_join a b = (if a = [] \<or> last a = CHR ''/'' then a @ b else a @ ''/'' @ b)"

text \<open>A pattern that does not start with a dot matches no name that does.\<close>

definition hidden :: "string \<Rightarrow> bool" where
  "hidden name = (case name of [] \<Rightarrow> False | c # _ \<Rightarrow> c = CHR ''.'')"

text \<open>The pattern \<^verbatim>\<open>*.json\<close> of \<^verbatim>\<open>reducer\<close>.\<close>

definition matches_json :: "string \<Rightarrow> bool" where
  "matches_json name = (\<not> hidden name \<and> suffix ''.json'' name)"

subsection \<open>JSON documents and the output directory\<close>

text \<open>
  The text of a file in the output directory is represented by what \<^verbatim>\<open>json.load\<close>
  makes of it: the encoding and decoding of text is the library's. Documents with
  floating-point numbers are outside the model. An object is the \<^verbatim>\<open>dict\<close> that
  \<^verbatim>\<open>json.load\<close> returns, its keys strings, in the order of the text.
\<close>

datatype json =
    JNull
  | JBool bool
  | JInt int
  | JStr string
  | JArr "json list"
  | JObj "(string \<times> json) list"

text \<open>
  What is at a name of the output directory:
  \<^item> \<open>Unopenable e\<close>, a name at which \<^verbatim>\<open>open\<close> raises \<open>e\<close> whatever the mode (a
    directory, a file without any permission, a link to nowhere);
  \<^item> \<open>Undecodable\<close>, a file whose bytes are not text in the encoding of the run;
  \<^item> \<open>Text ls\<close>, a text of these lines that is not a JSON document;
  \<^item> \<open>Doc d\<close>, a text that is the JSON document \<open>d\<close>.
\<close>

datatype content =
    Unopenable exn
  | Undecodable
  | Text "string list"
  | Doc json

text \<open>\<^verbatim>\<open>open(file_path, 'r')\<close> followed by \<^verbatim>\<open>json.load\<close>.\<close>

fun json_load :: "content \<Rightarrow> exn + json" where
  "json_load (Unopenable e) = Inl e"
| "json_load Undecodable = Inl UnicodeDecodeError"
| "json_load (Text ls) = Inl JSONDecodeError"
| "json_load (Doc data) = Inr data"

text \<open>
  \<^verbatim>\<open>json.dump\<close> of a \<^verbatim>\<open>dict\<close> with integer keys: the keys are written as strings.
\<close>

definition json_dump :: "counts \<Rightarrow> content" where
  "json_dump result = Doc (JObj (map (\<lambda>(k, c). (py_str k, JInt c)) result))"

text \<open>
  A listing of the output directory, in the order of \<^verbatim>\<open>glob\<close>. Writing a file replaces
  the content at an existing name and adds a new name at the end of the listing; at a
  name that cannot be opened, \<^verbatim>\<open>open(path, 'w')\<close> raises.
\<close>

type_synonym listing = "(string \<times> content) list"

fun put_file :: "listing \<Rightarrow> string \<Rightarrow> content \<Rightarrow> exn + listing" where
  "put_file [] name c = Inr [(name, c)]"
| "put_file ((n, old) # rest) name c =
     (if n = name
      then (case old of Unopenable e \<Rightarrow> Inl e | _ \<Rightarrow> Inr ((n, c) # rest))
      else (case put_file rest name c of
              Inl e \<Rightarrow> Inl e
            | Inr rest' \<Rightarrow> Inr ((n, old) # rest')))"

subsection \<open>The state of a run\<close>

text \<open>
  \<^item> \<open>data_listing\<close> is the listing of \<^verbatim>\<open>DATA_DIR\<close> in the order of \<^verbatim>\<open>glob\<close>, each name
    with the answer of \<^verbatim>\<open>os.path.isfile\<close>;
  \<^item> \<open>open_text\<close> is what opening a path for reading does;
  \<^item> \<open>makedirs_raises\<close> is the exception of \<^verbatim>\<open>os.makedirs(REDUCER_DIR, exist_ok=True)\<close>,
    if it raises;
  \<^item> \<open>out_listing\<close> is the listing of \<^verbatim>\<open>REDUCER_DIR\<close>, empty when the directory does not
    exist;
  \<^item> \<open>write_raises name\<close> is the exception of opening \<open>name\<close> in \<^verbatim>\<open>REDUCER_DIR\<close> for
    writing and writing to it, if that raises for another reason than the content at the
    name (a directory or a file that may not be written, a full disk);
  \<^item> \<open>console\<close> holds the lines printed by the main process.

  The two directories are taken to be different ones, and printing is taken not to raise.
  When an exception ends the run, the state left behind is not described.
\<close>

record world =
  DATA_DIR :: string
  PROJECT_PATH :: string
  data_listing :: "(string \<times> bool) list"
  open_text :: files
  makedirs_raises :: "exn option"
  out_listing :: listing
  write_raises :: "string \<Rightarrow> exn option"
  console :: "string list"

definition REDUCER_DIR :: "world \<Rightarrow> string" where
  "REDUCER_DIR w = path_join (PROJECT_PATH w) ''outputs''"

definition print :: "string list \<Rightarrow> world \<Rightarrow> world" where
  "print ls w = w\<lparr>console := console w @ ls\<rparr>"

text \<open>\<^verbatim>\<open>with open(path, 'w') as f\<close> and what is written to \<open>f\<close>, for a name of the output directory.\<close>

definition write_file :: "world \<Rightarrow> string \<Rightarrow> content \<Rightarrow> exn + world" where
  "write_file w name c =
     (case write_raises w name of
        Some e \<Rightarrow> Inl e
      | None \<Rightarrow>
          (case put_file (out_listing w) name c of
             Inl e \<Rightarrow> Inl e
           | Inr l \<Rightarrow> Inr (w\<lparr>out_listing := l\<rparr>)))"

subsection \<open>The process pool\<close>

text \<open>
  \<^verbatim>\<open>ProcessPoolExecutor(max_workers=P)\<close> runs the submitted tasks in \<open>P\<close> processes, which
  take them in the order of submission: at any time the tasks that are running are the
  first \<open>P\<close> of the tasks that have not finished. Which of the running tasks finishes next
  is not chosen by the program: \<open>sched\<close> lists these choices, each a position among the
  running tasks (taken modulo their number); when \<open>sched\<close> is used up the tasks finish in
  the order of submission. \<open>completion_order P sched tasks\<close> is the order in which the
  tasks finish.
\<close>

function completion_order :: "nat \<Rightarrow> nat list \<Rightarrow> nat list \<Rightarrow> nat list" where
  "completion_order 0 sched tasks = []"
| "completion_order (Suc p) sched [] = []"
| "completion_order (Suc p) [] (t # tasks) = t # completion_order (Suc p) [] tasks"
| "completion_order (Suc p) (c # sched) (t # tasks) =
     (let k = c mod length (take (Suc p) (t # tasks))
      in (t # tasks) ! k
           # completion_order (Suc p) sched (take k (t # tasks) @ drop (Suc k) (t # tasks)))"
  by pat_completeness auto

termination
proof (relation "measure (\<lambda>(p, sched, tasks). length tasks)")
  show "wf (measure (\<lambda>(p, sched, tasks). length tasks))" by simp
next
  fix p :: nat and t :: nat and tasks :: "nat list"
  show "((Suc p, [], tasks), (Suc p, [], t # tasks)) \<in> measure (\<lambda>(p, sched, tasks). length tasks)"
    by simp
next
  fix p c :: nat and sched :: "nat list" and t :: nat and tasks :: "nat list" and k :: nat
  assume k: "k = c mod length (take (Suc p) (t # tasks))"
  have "0 < length (take (Suc p) (t # tasks))" by simp
  then have "k < length (take (Suc p) (t # tasks))" unfolding k by (rule mod_less_divisor)
  then have "k < length (t # tasks)" by simp
  then show "((Suc p, sched, take k (t # tasks) @ drop (Suc k) (t # tasks)),
              (Suc p, c # sched, t # tasks)) \<in> measure (\<lambda>(p, sched, tasks). length tasks)"
    by simp
qed

text \<open>
  A task that finishes stores the result of \<open>fn\<close> on its argument in the future at its
  position.
\<close>

fun run_workers :: "nat list \<Rightarrow> ('a \<Rightarrow> 'r) \<Rightarrow> 'a list \<Rightarrow> 'r option list \<Rightarrow> 'r option list" where
  "run_workers [] fn xs futures = futures"
| "run_workers (i # order) fn xs futures =
     run_workers order fn xs
       (if i < length xs then futures[i := Some (fn (xs ! i))] else futures)"

text \<open>
  \<^verbatim>\<open>list(executor.map(fn, xs))\<close> takes the results of the futures in the order of
  submission and raises the first exception it meets. A future without a result does not
  occur once the tasks have finished.
\<close>

fun gather :: "(exn + 'b) option list \<Rightarrow> exn + 'b list" where
  "gather [] = Inr []"
| "gather (None # futures) = Inl BrokenProcessPool"
| "gather (Some (Inl e) # futures) = Inl e"
| "gather (Some (Inr r) # futures) =
     (case gather futures of Inl e \<Rightarrow> Inl e | Inr rs \<Rightarrow> Inr (r # rs))"

text \<open>
  The pool and its \<^verbatim>\<open>map\<close>. A pool of no workers is refused with \<^verbatim>\<open>ValueError\<close>. The
  processes of the pool are taken to start and to stay alive.
\<close>

definition executor_map :: "nat \<Rightarrow> nat list \<Rightarrow> ('a \<Rightarrow> exn + 'b) \<Rightarrow> 'a list \<Rightarrow> exn + 'b list" where
  "executor_map max_workers sched fn xs =
     (if max_workers = 0 then Inl ValueError
      else gather (run_workers (completion_order max_workers sched [0..<length xs]) fn xs
                     (replicate (length xs) None)))"

subsection \<open>The mapper stage\<close>

definition data_files :: "world \<Rightarrow> string list" where
  "data_files w =
     map (\<lambda>(name, isfile). path_join (DATA_DIR w) name)
       (filter (\<lambda>(name, isfile). \<not> hidden name \<and> isfile) (data_listing w))"

definition output_name :: "nat \<Rightarrow> string" where
  "output_name i = ''mapper_output_'' @ py_str (int i) @ ''.json''"

text \<open>The loop over \<^verbatim>\<open>enumerate(mapper_results)\<close>, from index \<open>i\<close> on.\<close>

fun save_results :: "nat \<Rightarrow> counts list \<Rightarrow> world \<Rightarrow> exn + world" where
  "save_results i [] w = Inr w"
| "save_results i (result # rest) w =
     (case write_file w (output_name i) (json_dump result) of
        Inl e \<Rightarrow> Inl e
      | Inr w' \<Rightarrow>
          save_results (Suc i) rest
            (print [''Saved mapper output to '' @ path_join (REDUCER_DIR w) (output_name i)] w'))"

text \<open>
  The lines that the worker processes print reach the terminal in an order that the
  program does not determine; they are part of the result of \<open>mapper\<close> and not of the
  console of the main process.
\<close>

definition run_mappers :: "nat list \<Rightarrow> world \<Rightarrow> exn + world" where
  "run_mappers sched w =
     (case makedirs_raises w of
        Some e \<Rightarrow> Inl e
      | None \<Rightarrow>
          if data_files w = []
          then Inr (print [''Error: No data files found in the specified directory.''] w)
          else
            (case executor_map 4 sched (mapper (open_text w)) (data_files w) of
               Inl e \<Rightarrow> Inl e
             | Inr mapper_results \<Rightarrow>
                 (case save_results 0 (map snd mapper_results) w of
                    Inl e \<Rightarrow> Inl e
                  | Inr w' \<Rightarrow> Inr (print [''All mappers have completed.''] w'))))"

subsection \<open>The reducer stage\<close>

text \<open>
  \<^verbatim>\<open>final_counts[int(num)] += count\<close> for the items of one document: a key that is not
  an integer raises \<^verbatim>\<open>ValueError\<close>, a count that is not a number raises
  \<^verbatim>\<open>TypeError\<close>, and \<^verbatim>\<open>True\<close> and \<^verbatim>\<open>False\<close> count as 1 and 0.
\<close>

fun add_items :: "(string \<times> json) list \<Rightarrow> counts \<Rightarrow> exn + counts" where
  "add_items [] final_counts = Inr final_counts"
| "add_items ((num, cnt) # items) final_counts =
     (case py_int num of
        None \<Rightarrow> Inl ValueError
      | Some k \<Rightarrow>
          (case cnt of
             JInt c \<Rightarrow> add_items items (dict_add final_counts k c)
           | JBool b \<Rightarrow> add_items items (dict_add final_counts k (if b then 1 else 0))
           | _ \<Rightarrow> Inl TypeError))"

text \<open>
  The loop over \<^verbatim>\<open>mapper_files\<close>. \<^verbatim>\<open>JSONDecodeError\<close> and \<^verbatim>\<open>FileNotFoundError\<close>
  are caught and reported (the text of the exception is left out of the line); a document
  that is not an object has no \<^verbatim>\<open>items\<close>.
\<close>

fun aggregate :: "string \<Rightarrow> listing \<Rightarrow> counts \<Rightarrow> exn + (string list \<times> counts)" where
  "aggregate dir [] final_counts = Inr ([], final_counts)"
| "aggregate dir ((name, c) # rest) final_counts =
     (case json_load c of
        Inl e \<Rightarrow>
          if e = JSONDecodeError \<or> e = FileNotFoundError
          then (case aggregate dir rest final_counts of
                  Inl e' \<Rightarrow> Inl e'
                | Inr (printed, fc) \<Rightarrow>
                    Inr ((''Error processing '' @ path_join dir name) # printed, fc))
          else Inl e
      | Inr data \<Rightarrow>
          (case data of
             JObj items \<Rightarrow>
               (case add_items items final_counts of
                  Inl e \<Rightarrow> Inl e
                | Inr fc \<Rightarrow> aggregate dir rest fc)
           | _ \<Rightarrow> Inl AttributeError))"

definition mapper_files :: "world \<Rightarrow> listing" where
  "mapper_files w = filter (\<lambda>(name, c). matches_json name) (out_listing w)"

text \<open>
  \<^verbatim>\<open>sorted(items, key=lambda item: item[1], reverse=True)\<close>: a stable sort, in which
  entries of equal count keep the order they have in the \<^verbatim>\<open>dict\<close>.
\<close>

definition sorted_counts :: "counts \<Rightarrow> counts" where
  "sorted_counts final_counts = sort_key (\<lambda>item. - snd item) final_counts"

definition top6 :: "counts \<Rightarrow> counts" where
  "top6 final_counts = take 6 (sorted_counts final_counts)"

definition output_line :: "int \<times> int \<Rightarrow> string" where
  "output_line item = ''Number: '' @ py_str (fst item) @ '', Frequency: '' @ py_str (snd item)"

definition header :: string where
  "header = ''Top 6 elements with the highest frequencies:''"

definition reducer :: "world \<Rightarrow> exn + world" where
  "reducer w =
     (if mapper_files w = []
      then Inr (print [''Error: No mapper output files found in the reducer directory. Run 'mapper' first.''] w)
      else
        (case aggregate (REDUCER_DIR w) (mapper_files w) [] of
           Inl e \<Rightarrow> Inl e
         | Inr (printed, final_counts) \<Rightarrow>
             (case write_file w ''final_output.txt''
                     (Text (header # map output_line (top6 final_counts))) of
                Inl e \<Rightarrow> Inl e
              | Inr w' \<Rightarrow>
                  Inr (print
                         ([''Reducer started...''] @ printed @ ['''', header]
                          @ map output_line (top6 final_counts)
                          @ ['''',
                             ''Final output saved to ''
                               @ path_join (REDUCER_DIR w) ''final_output.txt'',
                             ''Reducer finished.''])
                         w'))))"

subsection \<open>The driver\<close>


subsection \<open>Notions for the statements\<close>

text \<open>\<^verbatim>\<open>d.get(k, 0)\<close>: the count of \<open>k\<close> in a mapping, 0 for a key that it does not have.\<close>

definition get0 :: "counts \<Rightarrow> int \<Rightarrow> int" where
  "get0 d k = (case map_of d k of None \<Rightarrow> 0 | Some c \<Rightarrow> c)"

text \<open>What is at the name of the report in the output directory, if anything.\<close>

definition report_of :: "world \<Rightarrow> content option" where
  "report_of w = map_of (out_listing w) ''final_output.txt''"

text \<open>
  The file at \<open>path\<close> is read or does not exist: the two cases in which \<open>mapper\<close>
  returns.
\<close>

definition read_or_missing :: "files \<Rightarrow> string \<Rightarrow> bool" where
  "read_or_missing reading path =
     (case reading path of Inl e \<Rightarrow> e = FileNotFoundError | Inr text \<Rightarrow> True)"

text \<open>
  Opening \<open>name\<close> in the output directory for writing does not raise: nothing forbids
  it and what is at the name can be opened.
\<close>

definition can_write :: "world \<Rightarrow> string \<Rightarrow> bool" where
  "can_write w name =
     (write_raises w name = None
      \<and> (case map_of (out_listing w) name of Some (Unopenable e) \<Rightarrow> False | _ \<Rightarrow> True))"

text \<open>
  The number that \<^verbatim>\<open>+=\<close> adds for a JSON value, the items that a file contributes to
  the merge, and the files over which the loop of \<open>reducer\<close> passes without raising.
\<close>

fun amount :: "json \<Rightarrow> int option" where
  "amount (JInt c) = Some c"
| "amount (JBool b) = Some (if b then 1 else 0)"
| "amount _ = None"

text \<open>
  For the items of documents: the keys that they add to the merged mapping, and the sum
  that they add at the key \<open>k\<close>.
\<close>

definition item_keys :: "(string \<times> json) list \<Rightarrow> int list" where
  "item_keys items = List.map_filter (\<lambda>item. py_int (fst item)) items"

definition added :: "(string \<times> json) list \<Rightarrow> int \<Rightarrow> int" where
  "added items k =
     sum_list (map (\<lambda>item. case amount (snd item) of None \<Rightarrow> 0 | Some c \<Rightarrow> c)
                 (filter (\<lambda>item. py_int (fst item) = Some k) items))"

fun doc_items :: "content \<Rightarrow> (string \<times> json) list" where
  "doc_items (Doc (JObj items)) = items"
| "doc_items _ = []"

definition item_ok :: "string \<times> json \<Rightarrow> bool" where
  "item_ok item = (py_int (fst item) \<noteq> None \<and> amount (snd item) \<noteq> None)"

fun passes :: "content \<Rightarrow> bool" where
  "passes (Doc (JObj items)) = list_all item_ok items"
| "passes (Doc _) = False"
| "passes (Text ls) = True"
| "passes Undecodable = False"
| "passes (Unopenable e) = (e = JSONDecodeError \<or> e = FileNotFoundError)"

subsection \<open>Example directories\<close>

text \<open>
  Concrete states on which the pipeline is run in the examples of the second part. In
  \<open>example_files\<close> the path \<^verbatim>\<open>data_path/gone.txt\<close> names no file, \<^verbatim>\<open>data_path/locked.txt\<close>
  names a file that the user of the run may not read, and every other path names a file
  holding the single line \<^verbatim>\<open>7\<close>. In \<open>example_world data out\<close> the data directory
  lists \<open>data\<close>, the output directory exists and lists \<open>out\<close>, and nothing forbids
  writing to it.
\<close>

definition example_files :: files where
  "example_files p =
     (if p = ''data_path/gone.txt'' then Inl FileNotFoundError
      else if p = ''data_path/locked.txt'' then Inl PermissionError
      else Inr ''7\<newline>'')"

definition no_write_error :: "string \<Rightarrow> exn option" where
  "no_write_error name = None"

definition example_world :: "(string \<times> bool) list \<Rightarrow> listing \<Rightarrow> world" where
  "example_world data out =
     \<lparr>DATA_DIR = ''data_path'', PROJECT_PATH = ''project_path'',
      data_listing = data, open_text = example_files, makedirs_raises = None,
      out_listing = out, write_raises = no_write_error, console = []\<rparr>"

section \<open>Properties\<close>

subsection \<open>The dictionary\<close>

lemma dict_add_map_fst:
  "map fst (dict_add d k c) = (if k \<in> set (map fst d) then map fst d else map fst d @ [k])"
  by (induction d) (force simp: image_iff)+

lemma dict_add_keys: "set (map fst (dict_add d k c)) = insert k (set (map fst d))"
  by (auto simp: dict_add_map_fst)

lemma dict_add_distinct: "distinct (map fst d) \<Longrightarrow> distinct (map fst (dict_add d k c))"
  by (auto simp: dict_add_map_fst)

lemma dict_add_map_of:
  "map_of (dict_add d k c) k' =
     (if k' = k then Some ((case map_of d k of None \<Rightarrow> 0 | Some v \<Rightarrow> v) + c) else map_of d k')"
  by (induction d) auto

subsection \<open>Integers and their decimal text\<close>

lemma of_char_digit_char: "d < 10 \<Longrightarrow> (of_char (digit_char d) :: nat) = 48 + d"
  by (simp add: digit_char_def)

lemma isdigit_digit_char: "d < 10 \<Longrightarrow> isdigit (digit_char d)"
  by (simp add: isdigit_def of_char_digit_char)

lemma digit_val_digit_char: "d < 10 \<Longrightarrow> digit_val (digit_char d) = d"
  by (simp add: digit_val_def of_char_digit_char)

lemma isdigit_not_space: "isdigit c \<Longrightarrow> \<not> isspace c"
  by (simp add: isdigit_def isspace_def Let_def)

lemma isdigit_not_sign: "isdigit c \<Longrightarrow> c \<noteq> CHR ''-'' \<and> c \<noteq> CHR ''+''"
  by (auto simp: isdigit_def)

lemma dec_nat_digits: "\<forall>c \<in> set (dec_nat n). isdigit c"
proof (induction n rule: dec_nat.induct)
  case (1 n)
  show ?case
  proof (cases "n < 10")
    case True
    then show ?thesis by (subst dec_nat.simps) (simp add: isdigit_digit_char)
  next
    case False
    then show ?thesis using 1 by (subst dec_nat.simps) (simp add: isdigit_digit_char)
  qed
qed

lemma dec_nat_nonempty: "dec_nat n \<noteq> []"
  by (subst dec_nat.simps) simp

lemma int_digits_all_digits:
  "\<forall>c \<in> set cs. isdigit c \<Longrightarrow>
     int_digits acc cs = Some (foldl (\<lambda>a c. a * 10 + digit_val c) acc cs)"
  by (induction acc cs rule: int_digits.induct) auto

lemma dec_nat_value: "foldl (\<lambda>a c. a * 10 + digit_val c) 0 (dec_nat n) = n"
proof (induction n rule: dec_nat.induct)
  case (1 n)
  show ?case
  proof (cases "n < 10")
    case True
    then show ?thesis by (subst dec_nat.simps) (simp add: digit_val_digit_char)
  next
    case False
    then show ?thesis using 1 by (subst dec_nat.simps) (simp add: digit_val_digit_char)
  qed
qed

lemma int_magnitude_dec_nat: "int_magnitude (dec_nat n) = Some n"
proof (cases "dec_nat n")
  case Nil
  then show ?thesis using dec_nat_nonempty by simp
next
  case (Cons c cs)
  have d: "\<forall>x \<in> set (c # cs). isdigit x" using dec_nat_digits [of n] Cons by simp
  have "foldl (\<lambda>a c. a * 10 + digit_val c) 0 (c # cs) = n" using dec_nat_value [of n] Cons by simp
  then show ?thesis using d Cons by (simp add: int_magnitude_def int_digits_all_digits)
qed

lemma dropWhile_hd: "xs \<noteq> [] \<Longrightarrow> \<not> P (hd xs) \<Longrightarrow> dropWhile P xs = xs"
  by (cases xs) auto

lemma strip_id:
  assumes "s \<noteq> []" and "\<not> isspace (hd s)" and "\<not> isspace (last s)"
  shows "strip s = s"
proof -
  have 1: "dropWhile isspace s = s" using assms by (simp add: dropWhile_hd)
  have "rev s \<noteq> []" and "\<not> isspace (hd (rev s))" using assms by (simp_all add: hd_rev)
  then have 2: "dropWhile isspace (rev s) = rev s" by (rule dropWhile_hd)
  show ?thesis by (simp add: strip_def 1 2)
qed

lemma strip_py_str: "strip (py_str i) = py_str i"
proof -
  have ne: "\<And>n. dec_nat n \<noteq> []" by (rule dec_nat_nonempty)
  have l: "\<And>n. \<not> isspace (last (dec_nat n))"
    using dec_nat_digits ne isdigit_not_space last_in_set by blast
  have h: "\<And>n. \<not> isspace (hd (dec_nat n))"
    using dec_nat_digits ne isdigit_not_space hd_in_set by blast
  have m: "\<not> isspace (CHR ''-'')" by (simp add: isspace_def)
  show ?thesis
    by (rule strip_id) (auto simp: py_str_def ne l h m)
qed

lemma py_int_py_str: "py_int (py_str i) = Some i"
proof (cases "i < 0")
  case True
  then show ?thesis
    by (simp add: py_int_def strip_py_str) (simp add: py_str_def int_magnitude_dec_nat)
next
  case False
  obtain c cs where cs: "dec_nat (nat i) = c # cs"
    using dec_nat_nonempty [of "nat i"] by (cases "dec_nat (nat i)") auto
  then have "isdigit c" using dec_nat_digits [of "nat i"] by simp
  then have ns: "c \<noteq> CHR ''-''" "c \<noteq> CHR ''+''" using isdigit_not_sign by auto
  have "int_magnitude (c # cs) = Some (nat i)" using int_magnitude_dec_nat [of "nat i"] cs by simp
  then show ?thesis using False cs ns
    by (simp add: py_int_def strip_py_str) (simp add: py_str_def)
qed

lemma py_str_inj: "py_str i = py_str j \<Longrightarrow> i = j"
  by (metis py_int_py_str option.inject)

subsection \<open>The mapper\<close>

lemma count_lines_distinct:
  "distinct (map fst d) \<Longrightarrow> distinct (map fst (count_lines ls d))"
  by (induction ls arbitrary: d) (auto simp: dict_add_distinct split: option.splits)

lemma count_lines_map_of:
  "map_of (count_lines ls d) n =
     (let c = length (filter (\<lambda>line. py_int (strip line) = Some n) ls)
      in case map_of d n of
           None \<Rightarrow> if c = 0 then None else Some (int c)
         | Some v \<Rightarrow> Some (v + int c))"
  by (induction ls arbitrary: d) (auto simp: dict_add_map_of Let_def split: option.splits)


text \<open>
  Claim C6. For a file that can be read, the mapping that \<^verbatim>\<open>mapper\<close> returns has
  distinct keys and maps every integer \<open>n\<close> to the number of lines that \<^verbatim>\<open>int\<close>
  reads as \<open>n\<close> once the white space around them is stripped; an integer that no line
  gives is not a key, so a line that is no integer (a blank line too) adds nothing. The
  file with the text \<^verbatim>\<open>3\nabc\n\n5\n\<close> gives \<open>{3: 1, 5: 1}\<close>.
\<close>

theorem mapper_counts_parsed_lines:
  "(reading file_path = Inr text \<longrightarrow>
      (\<exists>printed result.
         mapper reading file_path = Inr (printed, result) \<and>
         distinct (map fst result) \<and>
         (\<forall>n. map_of result n =
            (let c = length (filter (\<lambda>line. py_int (strip line) = Some n)
                               (file_lines (universal_newlines text)))
             in if c = 0 then None else Some (int c))))) \<and>
   (reading file_path = Inr ''3\<newline>abc\<newline>\<newline>5\<newline>'' \<longrightarrow>
      (\<exists>printed. mapper reading file_path = Inr (printed, [(3, 1), (5, 1)])))"
proof -
  have ex: "count_lines (file_lines (universal_newlines ''3\<newline>abc\<newline>\<newline>5\<newline>'')) [] = [(3, 1), (5, 1)]"
    by code_simp
  have general: "reading file_path = Inr text \<longrightarrow>
      (\<exists>printed result.
         mapper reading file_path = Inr (printed, result) \<and>
         distinct (map fst result) \<and>
         (\<forall>n. map_of result n =
            (let c = length (filter (\<lambda>line. py_int (strip line) = Some n)
                               (file_lines (universal_newlines text)))
             in if c = 0 then None else Some (int c))))"
    by (auto simp: mapper_def count_lines_distinct count_lines_map_of Let_def)
  have particular: "reading file_path = Inr ''3\<newline>abc\<newline>\<newline>5\<newline>'' \<longrightarrow>
      (\<exists>printed. mapper reading file_path = Inr (printed, [(3, 1), (5, 1)]))"
  proof
    assume h: "reading file_path = Inr ''3\<newline>abc\<newline>\<newline>5\<newline>''"
    show "\<exists>printed. mapper reading file_path = Inr (printed, [(3, 1), (5, 1)])"
      by (simp only: mapper_def h sum.case ex) blast
  qed
  show ?thesis using general particular by (rule conjI)
qed

theorem mapper_counts_parsed_lines_witness:
  "mapper (\<lambda>p. Inr ''7\<newline> 7 \<newline>x\<newline>-2'') ''data_path/a.txt''
     = Inr ([''Mapper started for data_path/a.txt'', ''Mapper finished for data_path/a.txt''],
            [(7, 2), (- 2, 1)])
   \<and> (\<exists>printed. mapper (\<lambda>p. Inr ''3\<newline>abc\<newline>\<newline>5\<newline>'') ''data_path/b.txt''
         = Inr (printed, [(3, 1), (5, 1)]))"
proof -
  have a: "mapper (\<lambda>p. Inr ''7\<newline> 7 \<newline>x\<newline>-2'') ''data_path/a.txt''
     = Inr ([''Mapper started for data_path/a.txt'', ''Mapper finished for data_path/a.txt''],
            [(7, 2), (- 2, 1)])"
    by code_simp
  show ?thesis
    using a mapper_counts_parsed_lines
      [of "\<lambda>p. Inr ''3\<newline>abc\<newline>\<newline>5\<newline>''" "''data_path/b.txt''" "''3\<newline>abc\<newline>\<newline>5\<newline>''"]
    by simp
qed

subsection \<open>The process pool\<close>

lemma completion_order_mset:
  "0 < P \<Longrightarrow> mset (completion_order P sched tasks) = mset tasks"
proof (induction P sched tasks rule: completion_order.induct)
  case (4 p c sched t tasks)
  define k where "k = c mod length (take (Suc p) (t # tasks))"
  have "0 < length (take (Suc p) (t # tasks))" by simp
  then have "k < length (take (Suc p) (t # tasks))" unfolding k_def by (rule mod_less_divisor)
  then have k: "k < length (t # tasks)" by simp
  have ih: "mset (completion_order (Suc p) sched (take k (t # tasks) @ drop (Suc k) (t # tasks)))
              = mset (take k (t # tasks) @ drop (Suc k) (t # tasks))"
    using 4 k_def by simp
  have split: "t # tasks = take k (t # tasks) @ (t # tasks) ! k # drop (Suc k) (t # tasks)"
    using k by (rule id_take_nth_drop)
  have "mset (completion_order (Suc p) (c # sched) (t # tasks))
          = add_mset ((t # tasks) ! k) (mset (take k (t # tasks) @ drop (Suc k) (t # tasks)))"
    using ih by (simp add: k_def Let_def del: take_Suc_Cons drop_Suc_Cons nth_Cons_Suc)
  also have "\<dots> = mset (take k (t # tasks) @ (t # tasks) ! k # drop (Suc k) (t # tasks))"
    by simp
  also have "\<dots> = mset (t # tasks)" using split by simp
  finally show ?case .
qed simp_all

lemma run_workers_length:
  "length (run_workers sched fn xs futures) = length futures"
  by (induction sched arbitrary: futures) auto

lemma run_workers_nth:
  "length futures = length xs \<Longrightarrow> i < length xs \<Longrightarrow>
     run_workers sched fn xs futures ! i
       = (if i \<in> set sched then Some (fn (xs ! i)) else futures ! i)"
proof (induction sched arbitrary: futures)
  case Nil
  then show ?case by simp
next
  case (Cons j sched)
  let ?f = "if j < length xs then futures[j := Some (fn (xs ! j))] else futures"
  have len: "length ?f = length xs" using Cons.prems by simp
  have "run_workers (j # sched) fn xs futures ! i
          = (if i \<in> set sched then Some (fn (xs ! i)) else ?f ! i)"
    using Cons.IH [OF len Cons.prems(2)] by simp
  also have "\<dots> = (if i \<in> set (j # sched) then Some (fn (xs ! i)) else futures ! i)"
    using Cons.prems by (auto simp: nth_list_update)
  finally show ?case .
qed

lemma run_workers_all:
  assumes "{0..<length xs} \<subseteq> set order"
  shows "run_workers order fn xs (replicate (length xs) None) = map (\<lambda>x. Some (fn x)) xs"
proof (rule nth_equalityI)
  show "length (run_workers order fn xs (replicate (length xs) None))
          = length (map (\<lambda>x. Some (fn x)) xs)"
    by (simp add: run_workers_length)
next
  fix i
  assume "i < length (run_workers order fn xs (replicate (length xs) None))"
  then have i: "i < length xs" by (simp add: run_workers_length)
  then have "i \<in> set order" using assms by auto
  then show "run_workers order fn xs (replicate (length xs) None) ! i
               = map (\<lambda>x. Some (fn x)) xs ! i"
    using i by (simp add: run_workers_nth)
qed

lemma gather_Inr_iff: "gather (map Some ys) = Inr rs \<longleftrightarrow> ys = map Inr rs"
proof (induction ys arbitrary: rs)
  case Nil
  then show ?case by auto
next
  case (Cons y ys)
  show ?case
  proof (cases y)
    case (Inl e)
    then show ?thesis by (cases rs) auto
  next
    case (Inr r)
    show ?thesis
    proof
      assume a: "gather (map Some (y # ys)) = Inr rs"
      then obtain rs' where g: "gather (map Some ys) = Inr rs'" and rs: "rs = r # rs'"
        using Inr by (auto split: sum.splits)
      have "ys = map Inr rs'" using Cons.IH [of rs'] g by blast
      then show "y # ys = map Inr rs" using Inr rs by simp
    next
      assume a: "y # ys = map Inr rs"
      then obtain rs' where rs: "rs = r # rs'" and ys: "ys = map Inr rs'"
        using Inr by (cases rs) auto
      have "gather (map Some ys) = Inr rs'" using Cons.IH [of rs'] ys by blast
      then show "gather (map Some (y # ys)) = Inr rs" using Inr rs by simp
    qed
  qed
qed

lemma executor_map_eq:
  assumes "0 < P"
  shows "executor_map P sched fn xs = gather (map Some (map fn xs))"
proof -
  have "mset (completion_order P sched [0..<length xs]) = mset [0..<length xs]"
    using assms by (rule completion_order_mset)
  then have "set (completion_order P sched [0..<length xs]) = set [0..<length xs]"
    by (rule mset_eq_setD)
  then have "{0..<length xs} \<subseteq> set (completion_order P sched [0..<length xs])"
    by simp
  then have "run_workers (completion_order P sched [0..<length xs]) fn xs
               (replicate (length xs) None) = map (\<lambda>x. Some (fn x)) xs"
    by (rule run_workers_all)
  then show ?thesis using assms by (simp add: executor_map_def comp_def)
qed

lemma executor_map_Inr_iff:
  "0 < P \<Longrightarrow> executor_map P sched fn xs = Inr rs \<longleftrightarrow> map fn xs = map Inr rs"
  by (simp only: executor_map_eq gather_Inr_iff)





subsection \<open>The output directory\<close>

lemma put_file_map_of:
  "put_file l name c = Inr l' \<Longrightarrow> map_of l' = (map_of l)(name \<mapsto> c)"
proof (induction l arbitrary: l')
  case Nil
  then show ?case by auto
next
  case (Cons a l)
  obtain n old where a: "a = (n, old)" by (cases a)
  show ?case
  proof (cases "n = name")
    case True
    then show ?thesis using Cons.prems a by (auto split: content.splits)
  next
    case False
    then obtain rest' where r: "put_file l name c = Inr rest'" and l': "l' = (n, old) # rest'"
      using Cons.prems a by (auto split: sum.splits)
    have "map_of rest' = (map_of l)(name \<mapsto> c)" using r by (rule Cons.IH)
    then show ?thesis using False a l' by auto
  qed
qed

lemma put_file_Inl_iff:
  "put_file l name c = Inl e \<longleftrightarrow> map_of l name = Some (Unopenable e)"
proof (induction l)
  case Nil
  then show ?case by simp
next
  case (Cons a l)
  obtain n old where a: "a = (n, old)" by (cases a)
  show ?case using Cons.IH a by (auto split: content.splits sum.splits)
qed

lemma put_file_keeps_others:
  "put_file l name c = Inr l' \<Longrightarrow> \<not> P name \<Longrightarrow>
     filter (\<lambda>(n, c). P n) l' = filter (\<lambda>(n, c). P n) l"
proof (induction l arbitrary: l')
  case Nil
  then show ?case by auto
next
  case (Cons a l)
  obtain n old where a: "a = (n, old)" by (cases a)
  show ?case
  proof (cases "n = name")
    case True
    then show ?thesis using Cons.prems a by (auto split: content.splits)
  next
    case False
    then obtain rest' where r: "put_file l name c = Inr rest'" and l': "l' = (n, old) # rest'"
      using Cons.prems a by (auto split: sum.splits)
    have "filter (\<lambda>(n, c). P n) rest' = filter (\<lambda>(n, c). P n) l"
      using r Cons.prems(2) by (rule Cons.IH)
    then show ?thesis using a l' by simp
  qed
qed

lemma write_file_Inr:
  "write_file w name c = Inr w' \<Longrightarrow>
     \<exists>l. put_file (out_listing w) name c = Inr l \<and> w' = w\<lparr>out_listing := l\<rparr>
         \<and> write_raises w name = None"
  by (auto simp: write_file_def split: option.splits sum.splits)

lemma write_file_can_write:
  assumes "can_write w name"
  shows "\<exists>l. put_file (out_listing w) name c = Inr l \<and> write_file w name c = Inr (w\<lparr>out_listing := l\<rparr>)"
proof (cases "put_file (out_listing w) name c")
  case (Inl e)
  then have "map_of (out_listing w) name = Some (Unopenable e)" by (simp add: put_file_Inl_iff)
  then show ?thesis using assms by (simp add: can_write_def)
next
  case (Inr l)
  then show ?thesis using assms by (simp add: write_file_def can_write_def)
qed

lemma write_file_raises:
  "write_file w name c = Inl e \<longleftrightarrow>
     write_raises w name = Some e
     \<or> (write_raises w name = None \<and> map_of (out_listing w) name = Some (Unopenable e))"
proof (cases "write_raises w name")
  case None
  have "put_file (out_listing w) name c = Inl e \<longleftrightarrow> map_of (out_listing w) name = Some (Unopenable e)"
    by (rule put_file_Inl_iff)
  then show ?thesis using None by (cases "put_file (out_listing w) name c") (auto simp: write_file_def)
next
  case (Some e')
  then show ?thesis by (auto simp: write_file_def)
qed

lemma can_write_after_write:
  assumes "write_file w a (json_dump r) = Inr w'" and "can_write w b"
  shows "can_write (print ls w') b"
proof -
  obtain l where l: "put_file (out_listing w) a (json_dump r) = Inr l" and w': "w' = w\<lparr>out_listing := l\<rparr>"
    using assms(1) write_file_Inr by blast
  have "map_of l = (map_of (out_listing w))(a \<mapsto> json_dump r)"
    using l by (rule put_file_map_of)
  then show ?thesis using assms(2) w' by (auto simp: can_write_def print_def json_dump_def)
qed

lemma output_name_inj: "output_name i = output_name j \<Longrightarrow> i = j"
proof -
  assume "output_name i = output_name j"
  then have "py_str (int i) = py_str (int j)" by (simp add: output_name_def)
  then have "int i = int j" by (rule py_str_inj)
  then show "i = j" by simp
qed

lemma save_results_completes:
  "\<forall>j < length rs. can_write w (output_name (i + j)) \<Longrightarrow> \<exists>w'. save_results i rs w = Inr w'"
proof (induction rs arbitrary: i w)
  case Nil
  then show ?case by simp
next
  case (Cons r rs)
  have "can_write w (output_name (i + 0))" using Cons.prems by blast
  then have "can_write w (output_name i)" by simp
  then obtain l where wr: "write_file w (output_name i) (json_dump r) = Inr (w\<lparr>out_listing := l\<rparr>)"
    using write_file_can_write by blast
  let ?w = "print [''Saved mapper output to '' @ path_join (REDUCER_DIR w) (output_name i)]
              (w\<lparr>out_listing := l\<rparr>)"
  have "\<forall>j < length rs. can_write ?w (output_name (Suc i + j))"
  proof (intro allI impI)
    fix j assume "j < length rs"
    then have "can_write w (output_name (i + Suc j))" using Cons.prems by auto
    then have "can_write w (output_name (Suc i + j))" by simp
    with wr show "can_write ?w (output_name (Suc i + j))" by (rule can_write_after_write)
  qed
  then obtain w' where "save_results (Suc i) rs ?w = Inr w'" using Cons.IH by blast
  then show ?case using wr by simp
qed

lemma save_results_listing:
  "save_results i rs w = Inr w' \<Longrightarrow>
     (\<forall>j < length rs. map_of (out_listing w') (output_name (i + j)) = Some (json_dump (rs ! j)))
     \<and> (\<forall>name. (\<forall>j < length rs. name \<noteq> output_name (i + j)) \<longrightarrow>
                map_of (out_listing w') name = map_of (out_listing w) name)"
proof (induction rs arbitrary: i w)
  case Nil
  then show ?case by simp
next
  case (Cons r rs)
  obtain w1 where wr: "write_file w (output_name i) (json_dump r) = Inr w1"
    and rest: "save_results (Suc i) rs
                 (print [''Saved mapper output to '' @ path_join (REDUCER_DIR w) (output_name i)] w1) = Inr w'"
    using Cons.prems by (auto split: sum.splits)
  let ?w = "print [''Saved mapper output to '' @ path_join (REDUCER_DIR w) (output_name i)] w1"
  obtain l where l: "put_file (out_listing w) (output_name i) (json_dump r) = Inr l"
    and w1: "w1 = w\<lparr>out_listing := l\<rparr>"
    using wr write_file_Inr by blast
  have m1: "map_of (out_listing ?w) = (map_of (out_listing w))(output_name i \<mapsto> json_dump r)"
    using put_file_map_of [OF l] w1 by (simp add: print_def)
  have ih1: "\<forall>j < length rs. map_of (out_listing w') (output_name (Suc i + j)) = Some (json_dump (rs ! j))"
    and ih2: "\<forall>name. (\<forall>j < length rs. name \<noteq> output_name (Suc i + j)) \<longrightarrow>
                map_of (out_listing w') name = map_of (out_listing ?w) name"
    using Cons.IH [OF rest] by blast+
  have first: "\<forall>j < length (r # rs). map_of (out_listing w') (output_name (i + j)) = Some (json_dump ((r # rs) ! j))"
  proof (intro allI impI)
    fix j assume j: "j < length (r # rs)"
    show "map_of (out_listing w') (output_name (i + j)) = Some (json_dump ((r # rs) ! j))"
    proof (cases j)
      case 0
      have "\<forall>j < length rs. output_name i \<noteq> output_name (Suc i + j)"
        using output_name_inj by fastforce
      then have "map_of (out_listing w') (output_name i) = map_of (out_listing ?w) (output_name i)"
        using ih2 by blast
      then show ?thesis using 0 m1 by simp
    next
      case (Suc j')
      then have "j' < length rs" using j by simp
      then have "map_of (out_listing w') (output_name (Suc i + j')) = Some (json_dump (rs ! j'))"
        using ih1 by blast
      then show ?thesis using Suc by simp
    qed
  qed
  have second: "\<forall>name. (\<forall>j < length (r # rs). name \<noteq> output_name (i + j)) \<longrightarrow>
                map_of (out_listing w') name = map_of (out_listing w) name"
  proof (intro allI impI)
    fix name assume n: "\<forall>j < length (r # rs). name \<noteq> output_name (i + j)"
    have "name \<noteq> output_name (i + 0)" using n by blast
    then have n0: "name \<noteq> output_name i" by simp
    have "\<forall>j < length rs. name \<noteq> output_name (Suc i + j)"
    proof (intro allI impI)
      fix j assume "j < length rs"
      then have "name \<noteq> output_name (i + Suc j)" using n by auto
      then show "name \<noteq> output_name (Suc i + j)" by simp
    qed
    then have "map_of (out_listing w') name = map_of (out_listing ?w) name" using ih2 by blast
    then show "map_of (out_listing w') name = map_of (out_listing w) name" using m1 n0 by simp
  qed
  show ?case using first second by blast
qed

subsection \<open>Missing and unreadable files\<close>




lemma mapper_returns:
  "read_or_missing reading p \<Longrightarrow> \<exists>r. mapper reading p = Inr r"
  by (auto simp: mapper_def read_or_missing_def split: sum.splits)

lemma map_eq_map_Inr:
  "\<forall>x \<in> set xs. \<exists>r. f x = Inr r \<Longrightarrow> \<exists>rs. map f xs = map Inr rs"
proof (induction xs)
  case Nil
  then show ?case by simp
next
  case (Cons x xs)
  then obtain r rs where "f x = Inr r" and "map f xs = map Inr rs" by auto
  then have "map f (x # xs) = map Inr (r # rs)" by simp
  then show ?case by blast
qed

lemma map_eq_map_Inr_nth:
  "map f xs = map Inr rs \<Longrightarrow> i < length xs \<Longrightarrow> f (xs ! i) = Inr (rs ! i)"
proof -
  assume m: "map f xs = map Inr rs" and i: "i < length xs"
  have "length rs = length xs" using m by (metis length_map)
  moreover have "map f xs ! i = map Inr rs ! i" using m by simp
  ultimately show ?thesis using i by simp
qed

lemma mappers_return:
  "\<forall>p \<in> set paths. read_or_missing reading p \<Longrightarrow>
     \<exists>results. map (mapper reading) paths = map Inr results"
proof -
  assume "\<forall>p \<in> set paths. read_or_missing reading p"
  then have "\<forall>p \<in> set paths. \<exists>r. mapper reading p = Inr r"
    using mapper_returns by blast
  then show ?thesis by (rule map_eq_map_Inr)
qed


lemma run_mappers_completes:
  assumes "makedirs_raises w = None"
    and "\<forall>p \<in> set (data_files w). read_or_missing (open_text w) p"
    and "\<forall>i < length (data_files w). can_write w (output_name i)"
  shows "\<exists>w'. run_mappers sched w = Inr w'"
proof (cases "data_files w = []")
  case True
  then show ?thesis using assms(1) by (simp add: run_mappers_def)
next
  case False
  obtain results where m: "map (mapper (open_text w)) (data_files w) = map Inr results"
    using assms(2) mappers_return by blast
  then have e: "executor_map 4 sched (mapper (open_text w)) (data_files w) = Inr results"
    by (simp add: executor_map_Inr_iff)
  have "length results = length (data_files w)" using m by (metis length_map)
  then have "\<forall>j < length (map snd results). can_write w (output_name (0 + j))"
    using assms(3) by simp
  then obtain w' where "save_results 0 (map snd results) w = Inr w'"
    using save_results_completes by blast
  then show ?thesis using assms(1) False e by (simp add: run_mappers_def)
qed




subsection \<open>The order of the results and the names of the records\<close>

lemma run_mappers_Inr:
  assumes "run_mappers sched w = Inr w'" and "data_files w \<noteq> []"
  shows "\<exists>results w1.
           map (mapper (open_text w)) (data_files w) = map Inr results
           \<and> save_results 0 (map snd results) w = Inr w1
           \<and> w' = print [''All mappers have completed.''] w1"
proof -
  obtain results where e: "executor_map 4 sched (mapper (open_text w)) (data_files w) = Inr results"
    and s: "(case save_results 0 (map snd results) w of
               Inl e \<Rightarrow> Inl e
             | Inr w1 \<Rightarrow> Inr (print [''All mappers have completed.''] w1)) = Inr w'"
    using assms by (auto simp: run_mappers_def split: option.splits sum.splits)
  obtain w1 where w1: "save_results 0 (map snd results) w = Inr w1"
    and w': "w' = print [''All mappers have completed.''] w1"
    using s by (auto split: sum.splits)
  have "(0::nat) < 4" by simp
  then have "map (mapper (open_text w)) (data_files w) = map Inr results"
    using e executor_map_Inr_iff by blast
  then show ?thesis using w1 w' by blast
qed

lemma run_mappers_records:
  assumes "run_mappers sched w = Inr w'" and "data_files w \<noteq> []"
  shows "\<exists>results.
           length results = length (data_files w)
           \<and> (\<forall>i < length (data_files w).
                 mapper (open_text w) (data_files w ! i) = Inr (results ! i)
                 \<and> map_of (out_listing w') (output_name i) = Some (json_dump (snd (results ! i))))"
proof -
  obtain results w1 where m: "map (mapper (open_text w)) (data_files w) = map Inr results"
    and s: "save_results 0 (map snd results) w = Inr w1"
    and w': "w' = print [''All mappers have completed.''] w1"
    using run_mappers_Inr [OF assms] by blast
  have len: "length results = length (data_files w)" using m by (metis length_map)
  have "\<forall>j < length (map snd results).
          map_of (out_listing w1) (output_name (0 + j)) = Some (json_dump (map snd results ! j))"
    using save_results_listing [OF s] by blast
  then have stored: "\<forall>i < length (data_files w).
          map_of (out_listing w') (output_name i) = Some (json_dump (snd (results ! i)))"
    using len w' by (simp add: print_def)
  have "\<forall>i < length (data_files w). mapper (open_text w) (data_files w ! i) = Inr (results ! i)"
    using m map_eq_map_Inr_nth by blast
  then show ?thesis using len stored by blast
qed

text \<open>
  Claim C7: for \<open>N\<close> files and every bound \<open>P\<close> on the workers, the pool returns \<open>N\<close>
  results, the result at position \<open>i\<close> being the mapper's result for the file at position
  \<open>i\<close>, whatever the order \<open>sched\<close> in which the workers finish; and the record stored
  under the name \<^verbatim>\<open>mapper_output_i.json\<close> is the result at position \<open>i\<close>. The pool returns
  when every task returns, what it returns does not depend on \<open>P\<close> or \<open>sched\<close>, and the
  mapper stage returns when the files are read or not found and the output directory can
  be made and written.
\<close>

theorem pool_preserves_input_order:
  "(0 < P \<and> executor_map P sched fn xs = Inr rs \<longrightarrow>
      length rs = length xs \<and> (\<forall>i < length xs. fn (xs ! i) = Inr (rs ! i)))
   \<and> (0 < P \<and> (\<forall>x \<in> set xs. \<exists>r. fn x = Inr r) \<longrightarrow>
        (\<exists>rs. executor_map P sched fn xs = Inr rs))
   \<and> (0 < P \<and> 0 < P' \<longrightarrow> executor_map P sched fn xs = executor_map P' sched' fn xs)
   \<and> (run_mappers sched w = Inr w' \<and> data_files w \<noteq> [] \<longrightarrow>
        (\<exists>results.
           length results = length (data_files w)
           \<and> (\<forall>i < length (data_files w).
                 mapper (open_text w) (data_files w ! i) = Inr (results ! i)
                 \<and> map_of (out_listing w') (''mapper_output_'' @ py_str (int i) @ ''.json'')
                     = Some (json_dump (snd (results ! i))))))
   \<and> (makedirs_raises w = None
          \<and> (\<forall>p \<in> set (data_files w). read_or_missing (open_text w) p)
          \<and> (\<forall>i < length (data_files w). can_write w (output_name i)) \<longrightarrow>
        (\<exists>w'. run_mappers sched w = Inr w'))"
proof -
  have first: "0 < P \<and> executor_map P sched fn xs = Inr rs \<longrightarrow>
      length rs = length xs \<and> (\<forall>i < length xs. fn (xs ! i) = Inr (rs ! i))"
  proof
    assume "0 < P \<and> executor_map P sched fn xs = Inr rs"
    then have m: "map fn xs = map Inr rs" using executor_map_Inr_iff by blast
    then have "length rs = length xs" by (metis length_map)
    moreover have "\<forall>i < length xs. fn (xs ! i) = Inr (rs ! i)"
      using m map_eq_map_Inr_nth by blast
    ultimately show "length rs = length xs \<and> (\<forall>i < length xs. fn (xs ! i) = Inr (rs ! i))"
      by blast
  qed
  have second: "0 < P \<and> (\<forall>x \<in> set xs. \<exists>r. fn x = Inr r) \<longrightarrow>
        (\<exists>rs. executor_map P sched fn xs = Inr rs)"
  proof
    assume a: "0 < P \<and> (\<forall>x \<in> set xs. \<exists>r. fn x = Inr r)"
    then obtain rs where "map fn xs = map Inr rs" using map_eq_map_Inr by blast
    then have "executor_map P sched fn xs = Inr rs" using a executor_map_Inr_iff by blast
    then show "\<exists>rs. executor_map P sched fn xs = Inr rs" by blast
  qed
  have third: "0 < P \<and> 0 < P' \<longrightarrow> executor_map P sched fn xs = executor_map P' sched' fn xs"
    by (simp add: executor_map_eq)
  have fourth: "run_mappers sched w = Inr w' \<and> data_files w \<noteq> [] \<longrightarrow>
        (\<exists>results.
           length results = length (data_files w)
           \<and> (\<forall>i < length (data_files w).
                 mapper (open_text w) (data_files w ! i) = Inr (results ! i)
                 \<and> map_of (out_listing w') (''mapper_output_'' @ py_str (int i) @ ''.json'')
                     = Some (json_dump (snd (results ! i)))))"
    using run_mappers_records [of sched w w'] by (simp add: output_name_def)
  have fifth: "makedirs_raises w = None
          \<and> (\<forall>p \<in> set (data_files w). read_or_missing (open_text w) p)
          \<and> (\<forall>i < length (data_files w). can_write w (output_name i)) \<longrightarrow>
        (\<exists>w'. run_mappers sched w = Inr w')"
    using run_mappers_completes by blast
  show ?thesis using first second third fourth fifth by (intro conjI)
qed

theorem pool_preserves_input_order_witness:
  "executor_map 4 [1, 0] (mapper example_files) [''data_path/gone.txt'', ''data_path/seven.txt'']
     = Inr [([''Mapper started for data_path/gone.txt'',
              ''Error: File not found at data_path/gone.txt''], []),
            ([''Mapper started for data_path/seven.txt'',
              ''Mapper finished for data_path/seven.txt''], [(7, 1)])]
   \<and> mapper example_files ''data_path/seven.txt''
       = Inr ([''Mapper started for data_path/seven.txt'',
               ''Mapper finished for data_path/seven.txt''], [(7, 1)])
   \<and> executor_map 4 [1, 0] (mapper example_files) [''data_path/gone.txt'', ''data_path/seven.txt'']
       = executor_map 1 [] (mapper example_files) [''data_path/gone.txt'', ''data_path/seven.txt'']
   \<and> (\<exists>w'. run_mappers [1, 0] (example_world [(''gone.txt'', True), (''seven.txt'', True)] []) = Inr w'
            \<and> map_of (out_listing w') ''mapper_output_0.json'' = Some (json_dump [])
            \<and> map_of (out_listing w') ''mapper_output_1.json'' = Some (json_dump [(7, 1)]))"
proof -
  let ?w = "example_world [(''gone.txt'', True), (''seven.txt'', True)] []"
  let ?xs = "[''data_path/gone.txt'', ''data_path/seven.txt'']"
  let ?r0 = "([''Mapper started for data_path/gone.txt'',
               ''Error: File not found at data_path/gone.txt''], [] :: counts)"
  let ?r1 = "([''Mapper started for data_path/seven.txt'',
               ''Mapper finished for data_path/seven.txt''], [(7, 1)] :: counts)"
  have cnt: "count_lines (file_lines (universal_newlines ''7\<newline>'')) [] = [(7, 1)]"
    by code_simp
  have m0: "mapper example_files ''data_path/gone.txt'' = Inr ?r0"
    by (simp add: mapper_def example_files_def)
  have e7: "example_files ''data_path/seven.txt'' = Inr ''7\<newline>''"
    by (simp add: example_files_def)
  have m1: "mapper example_files ''data_path/seven.txt'' = Inr ?r1"
    by (simp only: mapper_def e7 sum.case cnt) simp
  have ev: "executor_map 4 [1, 0] (mapper example_files) ?xs = Inr [?r0, ?r1]"
    by (simp add: executor_map_eq m0 m1)
  have files: "data_files ?w = ?xs"
    by (simp add: data_files_def example_world_def path_join_def hidden_def)
  have fields: "open_text ?w = example_files" "makedirs_raises ?w = None"
    by (simp_all add: example_world_def)
  have rom: "\<forall>p \<in> set ?xs. read_or_missing example_files p"
    by (simp add: read_or_missing_def example_files_def)
  have writes: "\<forall>i < length (data_files ?w). can_write ?w (output_name i)"
    by (simp add: can_write_def example_world_def no_write_error_def)
  have names: "''mapper_output_'' @ py_str (int 0) @ ''.json'' = ''mapper_output_0.json''"
      "''mapper_output_'' @ py_str (int 1) @ ''.json'' = ''mapper_output_1.json''"
    by code_simp+
  note t = pool_preserves_input_order [where P = 4 and sched = "[1, 0]"
      and fn = "mapper example_files" and xs = ?xs and rs = "[?r0, ?r1]"
      and P' = 1 and sched' = "[]" and w = ?w]
  have pos: "(0::nat) < 4" "(0::nat) < 1" by simp_all
  have c1: "\<forall>i < length ?xs. mapper example_files (?xs ! i) = Inr ([?r0, ?r1] ! i)"
    using t ev pos by blast
  have "(1::nat) < length ?xs" by simp
  with c1 have "mapper example_files (?xs ! 1) = Inr ([?r0, ?r1] ! 1)"
    by blast
  then have c1': "mapper example_files ''data_path/seven.txt'' = Inr ?r1" by simp
  have c3: "executor_map 4 [1, 0] (mapper example_files) ?xs
              = executor_map 1 [] (mapper example_files) ?xs"
    using t pos by blast
  have "makedirs_raises ?w = None
          \<and> (\<forall>p \<in> set (data_files ?w). read_or_missing (open_text ?w) p)
          \<and> (\<forall>i < length (data_files ?w). can_write ?w (output_name i))"
    using rom writes by (simp add: files fields)
  then obtain w' where run: "run_mappers [1, 0] ?w = Inr w'"
    using t by blast
  have "data_files ?w \<noteq> []" by (simp add: files)
  then obtain results where len: "length results = length (data_files ?w)"
    and st: "\<forall>i < length (data_files ?w).
                 mapper (open_text ?w) (data_files ?w ! i) = Inr (results ! i)
                 \<and> map_of (out_listing w') (''mapper_output_'' @ py_str (int i) @ ''.json'')
                     = Some (json_dump (snd (results ! i)))"
    using t [of w'] run by blast
  have l0: "(0::nat) < length (data_files ?w)" and l1: "(1::nat) < length (data_files ?w)"
    by (simp_all add: files)
  have s0: "mapper (open_text ?w) (data_files ?w ! 0) = Inr (results ! 0)
            \<and> map_of (out_listing w') (''mapper_output_'' @ py_str (int 0) @ ''.json'')
                     = Some (json_dump (snd (results ! 0)))"
    using st l0 by blast
  have s1: "mapper (open_text ?w) (data_files ?w ! 1) = Inr (results ! 1)
            \<and> map_of (out_listing w') (''mapper_output_'' @ py_str (int 1) @ ''.json'')
                     = Some (json_dump (snd (results ! 1)))"
    using st l1 by blast
  have "results ! 0 = ?r0" using s0 m0 by (simp add: files fields)
  then have o0: "map_of (out_listing w') ''mapper_output_0.json'' = Some (json_dump [])"
    using s0 by (simp only: names) simp
  have "results ! 1 = ?r1" using s1 m1 by (simp add: files fields)
  then have o1: "map_of (out_listing w') ''mapper_output_1.json'' = Some (json_dump [(7, 1)])"
    using s1 by (simp only: names) simp
  show ?thesis using ev c1' c3 run o0 o1 by blast
qed

subsection \<open>The merge of the records\<close>

lemma dict_add_new: "k \<notin> set (map fst d) \<Longrightarrow> dict_add d k c = d @ [(k, c)]"
  by (induction d) auto

lemma get0_dict_add: "get0 (dict_add d k c) k' = (if k' = k then get0 d k + c else get0 d k')"
  by (simp add: get0_def dict_add_map_of)

lemma map_of_get0:
  "map_of d k = (if k \<in> set (map fst d) then Some (get0 d k) else None)"
proof (cases "map_of d k")
  case None
  then show ?thesis by (simp add: map_of_eq_None_iff)
next
  case (Some c)
  then have "k \<in> set (map fst d)" by (metis map_of_eq_None_iff option.distinct(1) set_map)
  then show ?thesis using Some by (simp add: get0_def)
qed

lemma item_keys_Nil: "item_keys [] = []"
  by (simp add: item_keys_def map_filter_simps)

lemma item_keys_Cons:
  "item_keys (item # items)
     = (case py_int (fst item) of None \<Rightarrow> item_keys items | Some k \<Rightarrow> k # item_keys items)"
  by (simp add: item_keys_def map_filter_simps split: option.splits)

lemma item_keys_append: "item_keys (xs @ ys) = item_keys xs @ item_keys ys"
  by (simp add: item_keys_def map_filter_def)

lemma set_item_keys: "set (item_keys items) = {k. \<exists>item \<in> set items. py_int (fst item) = Some k}"
  by (force simp: item_keys_def map_filter_def)

lemma added_Nil: "added [] k = 0"
  by (simp add: added_def)

lemma added_Cons:
  "added (item # items) k
     = (if py_int (fst item) = Some k
        then (case amount (snd item) of None \<Rightarrow> 0 | Some c \<Rightarrow> c) + added items k
        else added items k)"
  by (simp add: added_def)

lemma added_append: "added (xs @ ys) k = added xs k + added ys k"
  by (simp add: added_def)

lemma add_items_ok: "add_items items fc = Inr fc' \<Longrightarrow> list_all item_ok items"
proof (induction items arbitrary: fc)
  case Nil
  then show ?case by simp
next
  case (Cons item items)
  obtain num cnt where item: "item = (num, cnt)" by (cases item)
  show ?case
  proof (cases "py_int num")
    case None
    then show ?thesis using Cons.prems item by simp
  next
    case (Some k)
    show ?thesis
    proof (cases "amount cnt")
      case None
      then show ?thesis using Cons.prems item Some by (cases cnt) auto
    next
      case (Some c)
      have "\<exists>fc1. add_items items fc1 = Inr fc'"
        using Cons.prems item \<open>py_int num = Some k\<close> by (cases cnt) auto
      then have rest: "list_all item_ok items" using Cons.IH by blast
      have "item_ok item" using item Some \<open>py_int num = Some k\<close> by (simp add: item_ok_def)
      then show ?thesis using rest by simp
    qed
  qed
qed

lemma add_items_step:
  "py_int num = Some k \<Longrightarrow> amount cnt = Some c \<Longrightarrow>
     add_items ((num, cnt) # items) fc = add_items items (dict_add fc k c)"
  by (cases cnt) auto

lemma add_items_returns: "list_all item_ok items \<Longrightarrow> \<exists>fc'. add_items items fc = Inr fc'"
proof (induction items arbitrary: fc)
  case Nil
  then show ?case by simp
next
  case (Cons item items)
  obtain num cnt where item: "item = (num, cnt)" by (cases item)
  obtain k c where k: "py_int num = Some k" and c: "amount cnt = Some c"
    using Cons.prems item by (auto simp: item_ok_def)
  have "list_all item_ok items" using Cons.prems by simp
  then obtain fc' where "add_items items (dict_add fc k c) = Inr fc'" using Cons.IH by blast
  then show ?case using item add_items_step [OF k c] by simp
qed

lemma add_items_result:
  "add_items items fc = Inr fc' \<Longrightarrow>
     set (map fst fc') = set (map fst fc) \<union> set (item_keys items)
     \<and> (distinct (map fst fc) \<longrightarrow> distinct (map fst fc'))
     \<and> (\<forall>k. get0 fc' k = get0 fc k + added items k)"
proof (induction items arbitrary: fc)
  case Nil
  then show ?case by (simp add: item_keys_Nil added_Nil)
next
  case (Cons item items)
  obtain num cnt where item: "item = (num, cnt)" by (cases item)
  have "list_all item_ok (item # items)" using Cons.prems by (rule add_items_ok)
  then obtain k c where k: "py_int num = Some k" and c: "amount cnt = Some c"
    using item by (auto simp: item_ok_def)
  have rest: "add_items items (dict_add fc k c) = Inr fc'"
    using Cons.prems item add_items_step [OF k c] by simp
  note ih = Cons.IH [OF rest]
  have keys: "set (map fst fc') = set (map fst fc) \<union> set (item_keys (item # items))"
    using ih item k by (auto simp: dict_add_keys item_keys_Cons simp del: set_map)
  have dist: "distinct (map fst fc) \<longrightarrow> distinct (map fst fc')"
    using ih dict_add_distinct by blast
  have sums: "\<forall>k'. get0 fc' k' = get0 fc k' + added (item # items) k'"
    using ih item k c by (simp add: get0_dict_add added_Cons)
  show ?case using keys dist sums by blast
qed

lemma add_items_append:
  "add_items (xs @ ys) fc = (case add_items xs fc of Inl e \<Rightarrow> Inl e | Inr fc1 \<Rightarrow> add_items ys fc1)"
proof (induction xs arbitrary: fc)
  case Nil
  then show ?case by simp
next
  case (Cons item xs)
  obtain num cnt where item: "item = (num, cnt)" by (cases item)
  show ?case using Cons.IH item by (cases cnt) (auto split: option.splits)
qed

lemma add_items_dumped:
  "distinct (map fst result) \<Longrightarrow> set (map fst result) \<inter> set (map fst fc) = {} \<Longrightarrow>
     add_items (map (\<lambda>(k, c). (py_str k, JInt c)) result) fc = Inr (fc @ result)"
proof (induction result arbitrary: fc)
  case Nil
  then show ?case by simp
next
  case (Cons a result)
  obtain k c where a: "a = (k, c)" by (cases a)
  have new: "k \<notin> set (map fst fc)" using Cons.prems(2) a by auto
  have d: "distinct (map fst result)" using Cons.prems(1) by simp
  have "set (map fst result) \<inter> set (map fst (fc @ [(k, c)])) = {}"
    using Cons.prems a by auto
  then have "add_items (map (\<lambda>(k, c). (py_str k, JInt c)) result) (fc @ [(k, c)])
               = Inr ((fc @ [(k, c)]) @ result)"
    using d Cons.IH by blast
  then show ?case using a new by (simp add: py_int_py_str dict_add_new)
qed

lemma aggregate_step_caught:
  "passes c \<Longrightarrow> isl (json_load c) \<Longrightarrow>
     aggregate dir ((name, c) # rest) fc
       = (case aggregate dir rest fc of
            Inl e \<Rightarrow> Inl e
          | Inr (printed, fc') \<Rightarrow> Inr ((''Error processing '' @ path_join dir name) # printed, fc'))"
  by (cases c) auto

lemma aggregate_step_merged:
  "passes c \<Longrightarrow> \<not> isl (json_load c) \<Longrightarrow>
     aggregate dir ((name, c) # rest) fc
       = (case add_items (doc_items c) fc of
            Inl e \<Rightarrow> Inl e
          | Inr fc1 \<Rightarrow> aggregate dir rest fc1)"
proof (cases c)
  case (Doc d)
  assume "passes c"
  then show ?thesis using Doc by (cases d) auto
qed auto

lemma caught_no_items: "isl (json_load c) \<Longrightarrow> doc_items c = []"
  by (cases c) auto

lemma merged_items_ok: "passes c \<Longrightarrow> \<not> isl (json_load c) \<Longrightarrow> list_all item_ok (doc_items c)"
proof (cases c)
  case (Doc d)
  assume "passes c"
  then show ?thesis using Doc by (cases d) auto
qed auto

lemma aggregate_step_raises:
  "\<not> passes c \<Longrightarrow> \<exists>e. aggregate dir ((name, c) # rest) fc = Inl e"
proof (cases c)
  case (Doc d)
  assume np: "\<not> passes c"
  show ?thesis
  proof (cases d)
    case (JObj items)
    then have "\<not> list_all item_ok items" using np Doc by simp
    then have "\<forall>fc'. add_items items fc \<noteq> Inr fc'" using add_items_ok by blast
    then obtain e where "add_items items fc = Inl e" by (cases "add_items items fc") auto
    then show ?thesis using Doc JObj by simp
  qed (use Doc in auto)
qed auto

lemma aggregate_result:
  "aggregate dir files fc = Inr (printed, fc') \<Longrightarrow>
     list_all (\<lambda>(name, c). passes c) files
     \<and> add_items (concat (map (\<lambda>(name, c). doc_items c) files)) fc = Inr fc'
     \<and> printed = map (\<lambda>(name, c). ''Error processing '' @ path_join dir name)
                   (filter (\<lambda>(name, c). isl (json_load c)) files)"
proof (induction files arbitrary: fc printed)
  case Nil
  then show ?case by simp
next
  case (Cons a files)
  obtain name c where a: "a = (name, c)" by (cases a)
  have p: "passes c"
    using Cons.prems a aggregate_step_raises [of c dir name files fc] by auto
  show ?case
  proof (cases "isl (json_load c)")
    case True
    then obtain printed1 where r: "aggregate dir files fc = Inr (printed1, fc')"
      and pr: "printed = (''Error processing '' @ path_join dir name) # printed1"
      using Cons.prems a aggregate_step_caught [OF p True, of dir name files fc]
      by (auto split: sum.splits)
    show ?thesis using Cons.IH [OF r] a p True pr by (simp add: caught_no_items)
  next
    case False
    then obtain fc1 where a1: "add_items (doc_items c) fc = Inr fc1"
      and r: "aggregate dir files fc1 = Inr (printed, fc')"
      using Cons.prems a aggregate_step_merged [OF p False, of dir name files fc]
      by (auto split: sum.splits)
    show ?thesis using Cons.IH [OF r] a p False a1 by (simp add: add_items_append)
  qed
qed

lemma aggregate_returns:
  "list_all (\<lambda>(name, c). passes c) files \<Longrightarrow> \<exists>printed fc'. aggregate dir files fc = Inr (printed, fc')"
proof (induction files arbitrary: fc)
  case Nil
  then show ?case by simp
next
  case (Cons a files)
  obtain name c where a: "a = (name, c)" by (cases a)
  have p: "passes c" and rest: "list_all (\<lambda>(name, c). passes c) files"
    using Cons.prems a by simp_all
  show ?case
  proof (cases "isl (json_load c)")
    case True
    obtain printed fc' where "aggregate dir files fc = Inr (printed, fc')"
      using Cons.IH [OF rest] by blast
    then show ?thesis using a aggregate_step_caught [OF p True, of dir name files fc] by simp
  next
    case False
    have "list_all item_ok (doc_items c)" using p False by (rule merged_items_ok)
    then obtain fc1 where a1: "add_items (doc_items c) fc = Inr fc1"
      using add_items_returns by blast
    obtain printed fc' where "aggregate dir files fc1 = Inr (printed, fc')"
      using Cons.IH [OF rest] by blast
    then show ?thesis using a a1 aggregate_step_merged [OF p False, of dir name files fc] by simp
  qed
qed

lemma aggregate_merged:
  assumes "aggregate dir files [] = Inr (printed, merged)"
  shows "distinct (map fst merged)"
    and "set (map fst merged) = set (item_keys (concat (map (\<lambda>(name, c). doc_items c) files)))"
    and "get0 merged k = added (concat (map (\<lambda>(name, c). doc_items c) files)) k"
proof -
  have a: "add_items (concat (map (\<lambda>(name, c). doc_items c) files)) [] = Inr merged"
    using aggregate_result [OF assms] by blast
  note r = add_items_result [OF a]
  show "distinct (map fst merged)" using r by simp
  show "set (map fst merged) = set (item_keys (concat (map (\<lambda>(name, c). doc_items c) files)))"
    using r by simp
  show "get0 merged k = added (concat (map (\<lambda>(name, c). doc_items c) files)) k"
    using r by (simp add: get0_def)
qed

subsection \<open>Records written and read back\<close>

lemma item_keys_concat: "item_keys (concat xss) = concat (map item_keys xss)"
  by (induction xss) (simp_all add: item_keys_Nil item_keys_append)

lemma added_concat: "added (concat xss) k = sum_list (map (\<lambda>xs. added xs k) xss)"
  by (induction xss) (simp_all add: added_Nil added_append)

lemma get0_absent: "k \<notin> set (map fst d) \<Longrightarrow> get0 d k = 0"
  by (simp add: map_of_get0 get0_def split: option.splits if_splits)

lemma item_keys_dumped: "item_keys (map (\<lambda>(k, c). (py_str k, JInt c)) r) = map fst r"
  by (induction r) (auto simp: item_keys_Nil item_keys_Cons py_int_py_str)

lemma added_dumped:
  "distinct (map fst r) \<Longrightarrow> added (map (\<lambda>(k, c). (py_str k, JInt c)) r) k = get0 r k"
proof (induction r)
  case Nil
  then show ?case by (simp add: added_Nil get0_def)
next
  case (Cons a r)
  obtain k' c where a: "a = (k', c)" by (cases a)
  have ih: "added (map (\<lambda>(k, c). (py_str k, JInt c)) r) k = get0 r k"
    using Cons by simp
  show ?case
  proof (cases "k' = k")
    case True
    then have "k \<notin> set (map fst r)" using Cons.prems a by simp
    then have "get0 r k = 0" by (rule get0_absent)
    then show ?thesis using a True ih by (simp add: added_Cons py_int_py_str get0_def)
  next
    case False
    then show ?thesis using a ih by (simp add: added_Cons py_int_py_str get0_def)
  qed
qed

lemma passes_json_dump: "passes (json_dump r)"
  by (induction r) (auto simp: json_dump_def item_ok_def py_int_py_str)

lemma doc_items_json_dump: "doc_items (json_dump r) = map (\<lambda>(k, c). (py_str k, JInt c)) r"
  by (simp add: json_dump_def)

lemma mapper_distinct: "mapper reading p = Inr (printed, result) \<Longrightarrow> distinct (map fst result)"
  by (auto simp: mapper_def count_lines_distinct split: sum.splits if_splits)

lemma aggregate_one_record:
  assumes "distinct (map fst result)"
  shows "aggregate dir [(name, json_dump result)] [] = Inr ([], result)"
proof -
  have "add_items (map (\<lambda>(k, c). (py_str k, JInt c)) result) [] = Inr ([] @ result)"
    using assms by (intro add_items_dumped) simp_all
  then show ?thesis by (simp add: json_dump_def)
qed

lemma example_mapper_seven:
  "mapper example_files ''data_path/seven.txt''
     = Inr ([''Mapper started for data_path/seven.txt'',
             ''Mapper finished for data_path/seven.txt''], [(7, 1)])"
proof -
  have cnt: "count_lines (file_lines (universal_newlines ''7\<newline>'')) [] = [(7, 1)]"
    by code_simp
  have e7: "example_files ''data_path/seven.txt'' = Inr ''7\<newline>''"
    by (simp add: example_files_def)
  show ?thesis by (simp only: mapper_def e7 sum.case cnt) simp
qed

text \<open>
  Claim C8: a mapping with integer keys and counts that is stored as a record and read
  back by the reducer is the mapping that was stored. \<^verbatim>\<open>json.dump\<close> writes the keys as
  strings; \<^verbatim>\<open>int(num)\<close> reads each of them back as the integer it was written from, so
  the loop of the reducer, started from the empty mapping, ends with the stored mapping,
  keys and counts in their order. This holds for every mapping that the mapper returns.
\<close>

theorem record_round_trip:
  "(distinct (map fst result) \<longrightarrow>
      json_load (json_dump result) = Inr (JObj (map (\<lambda>(k, c). (py_str k, JInt c)) result))
      \<and> list_all (\<lambda>(k, c). py_int (py_str k) = Some k) result
      \<and> add_items (map (\<lambda>(k, c). (py_str k, JInt c)) result) [] = Inr result
      \<and> aggregate dir [(name, json_dump result)] [] = Inr ([], result))
   \<and> (mapper reading file_path = Inr (lines, counted) \<longrightarrow>
        aggregate dir [(name, json_dump counted)] [] = Inr ([], counted))
   \<and> (write_file w name (json_dump result) = Inr w' \<longrightarrow>
        map_of (out_listing w') name = Some (json_dump result))"
proof -
  have first: "distinct (map fst result) \<longrightarrow>
      json_load (json_dump result) = Inr (JObj (map (\<lambda>(k, c). (py_str k, JInt c)) result))
      \<and> list_all (\<lambda>(k, c). py_int (py_str k) = Some k) result
      \<and> add_items (map (\<lambda>(k, c). (py_str k, JInt c)) result) [] = Inr result
      \<and> aggregate dir [(name, json_dump result)] [] = Inr ([], result)"
  proof
    assume d: "distinct (map fst result)"
    have a: "json_load (json_dump result) = Inr (JObj (map (\<lambda>(k, c). (py_str k, JInt c)) result))"
      by (simp add: json_dump_def)
    have b: "list_all (\<lambda>(k, c). py_int (py_str k) = Some k) result"
      by (simp add: list_all_iff py_int_py_str split_beta)
    have "add_items (map (\<lambda>(k, c). (py_str k, JInt c)) result) [] = Inr ([] @ result)"
      using d by (intro add_items_dumped) simp_all
    then have c: "add_items (map (\<lambda>(k, c). (py_str k, JInt c)) result) [] = Inr result"
      by simp
    have "aggregate dir [(name, json_dump result)] [] = Inr ([], result)"
      using d by (rule aggregate_one_record)
    with a b c show "json_load (json_dump result) = Inr (JObj (map (\<lambda>(k, c). (py_str k, JInt c)) result))
      \<and> list_all (\<lambda>(k, c). py_int (py_str k) = Some k) result
      \<and> add_items (map (\<lambda>(k, c). (py_str k, JInt c)) result) [] = Inr result
      \<and> aggregate dir [(name, json_dump result)] [] = Inr ([], result)"
      by blast
  qed
  have second: "mapper reading file_path = Inr (lines, counted) \<longrightarrow>
        aggregate dir [(name, json_dump counted)] [] = Inr ([], counted)"
    using mapper_distinct aggregate_one_record by blast
  have third: "write_file w name (json_dump result) = Inr w' \<longrightarrow>
        map_of (out_listing w') name = Some (json_dump result)"
  proof
    assume "write_file w name (json_dump result) = Inr w'"
    then obtain l where l: "put_file (out_listing w) name (json_dump result) = Inr l"
      and w': "w' = w\<lparr>out_listing := l\<rparr>"
      using write_file_Inr by blast
    have "map_of l = (map_of (out_listing w))(name \<mapsto> json_dump result)"
      using l by (rule put_file_map_of)
    then show "map_of (out_listing w') name = Some (json_dump result)" using w' by simp
  qed
  show ?thesis using first second third by (intro conjI)
qed

theorem record_round_trip_witness:
  "json_dump [(3, 1), (- 5, 2)] = Doc (JObj [(''3'', JInt 1), (''-5'', JInt 2)])
   \<and> json_load (json_dump [(3, 1), (- 5, 2)]) = Inr (JObj [(''3'', JInt 1), (''-5'', JInt 2)])
   \<and> add_items [(''3'', JInt 1), (''-5'', JInt 2)] [] = Inr [(3, 1), (- 5, 2)]
   \<and> aggregate ''project_path/outputs'' [(''mapper_output_0.json'', json_dump [(3, 1), (- 5, 2)])] []
       = Inr ([], [(3, 1), (- 5, 2)])
   \<and> aggregate ''project_path/outputs'' [(''mapper_output_0.json'', json_dump [(7, 1)])] []
       = Inr ([], [(7, 1)])
   \<and> write_file (example_world [] []) ''mapper_output_0.json'' (json_dump [(3, 1), (- 5, 2)])
       = Inr (example_world [] [(''mapper_output_0.json'', json_dump [(3, 1), (- 5, 2)])])
   \<and> map_of (out_listing (example_world [] [(''mapper_output_0.json'', json_dump [(3, 1), (- 5, 2)])]))
         ''mapper_output_0.json''
       = Some (json_dump [(3, 1), (- 5, 2)])"
proof -
  let ?r = "[(3, 1), (- 5, 2)] :: counts"
  have dump: "json_dump ?r = Doc (JObj [(''3'', JInt 1), (''-5'', JInt 2)])"
    by code_simp
  have items: "map (\<lambda>(k, c). (py_str k, JInt c)) ?r = [(''3'', JInt 1), (''-5'', JInt 2)]"
    by code_simp
  have d: "distinct (map fst ?r)" by simp
  have wr: "write_file (example_world [] []) ''mapper_output_0.json'' (json_dump ?r)
              = Inr (example_world [] [(''mapper_output_0.json'', json_dump ?r)])"
    by (simp add: write_file_def example_world_def no_write_error_def)
  note t = record_round_trip [where result = ?r and dir = "''project_path/outputs''"
      and name = "''mapper_output_0.json''" and reading = example_files
      and file_path = "''data_path/seven.txt''"
      and lines = "[''Mapper started for data_path/seven.txt'',
                    ''Mapper finished for data_path/seven.txt'']"
      and counted = "[(7, 1)]" and w = "example_world [] []"
      and w' = "example_world [] [(''mapper_output_0.json'', json_dump ?r)]"]
  have c1: "json_load (json_dump ?r) = Inr (JObj (map (\<lambda>(k, c). (py_str k, JInt c)) ?r))
      \<and> add_items (map (\<lambda>(k, c). (py_str k, JInt c)) ?r) [] = Inr ?r
      \<and> aggregate ''project_path/outputs'' [(''mapper_output_0.json'', json_dump ?r)] [] = Inr ([], ?r)"
    using t d by blast
  have c2: "aggregate ''project_path/outputs'' [(''mapper_output_0.json'', json_dump [(7, 1)])] []
       = Inr ([], [(7, 1)])"
    using t example_mapper_seven by blast
  have c3: "map_of (out_listing (example_world [] [(''mapper_output_0.json'', json_dump ?r)]))
         ''mapper_output_0.json'' = Some (json_dump ?r)"
    using t wr by blast
  have c1a: "json_load (json_dump ?r) = Inr (JObj [(''3'', JInt 1), (''-5'', JInt 2)])"
    using c1 by (simp only: items)
  have c1b: "add_items [(''3'', JInt 1), (''-5'', JInt 2)] [] = Inr ?r"
    using c1 by (simp only: items)
  show ?thesis using dump c1a c1b c1 c2 wr c3 by (intro conjI) blast+
qed

subsection \<open>The merged mapping\<close>

lemma zip_dumped_items:
  "length names = length records \<Longrightarrow>
     map (\<lambda>(name, c). doc_items c) (zip names (map json_dump records))
       = map (\<lambda>r. map (\<lambda>(k, c). (py_str k, JInt c)) r) records"
proof (induction records arbitrary: names)
  case Nil
  then show ?case by simp
next
  case (Cons r records)
  then obtain n ns where "names = n # ns" and "length ns = length records"
    by (cases names) auto
  then show ?case using Cons.IH by (simp add: doc_items_json_dump)
qed

lemma zip_dumped_passes:
  "list_all (\<lambda>(name, c). passes c) (zip names (map json_dump records))"
proof -
  have "\<forall>x \<in> set (zip names (map json_dump records)). passes (snd x)"
  proof
    fix x assume "x \<in> set (zip names (map json_dump records))"
    then have "snd x \<in> set (map json_dump records)" by (metis set_zip_rightD prod.collapse)
    then show "passes (snd x)" using passes_json_dump by auto
  qed
  then show ?thesis by (simp add: list_all_iff split_beta)
qed

lemma zip_dumped_none_caught:
  "filter (\<lambda>(name, c). isl (json_load c)) (zip names (map json_dump records)) = []"
proof -
  have "\<forall>x \<in> set (zip names (map json_dump records)). \<not> isl (json_load (snd x))"
  proof
    fix x assume "x \<in> set (zip names (map json_dump records))"
    then have "snd x \<in> set (map json_dump records)" by (metis set_zip_rightD prod.collapse)
    then show "\<not> isl (json_load (snd x))" by (auto simp: json_dump_def)
  qed
  then show ?thesis by (simp add: filter_empty_conv split_beta)
qed

lemma merged_records:
  assumes len: "length names = length records"
    and dist: "\<forall>r \<in> set records. distinct (map fst r)"
  shows "\<exists>merged.
           aggregate dir (zip names (map json_dump records)) [] = Inr ([], merged)
           \<and> distinct (map fst merged)
           \<and> set (map fst merged) = (\<Union>r \<in> set records. set (map fst r))
           \<and> (\<forall>k. get0 merged k = sum_list (map (\<lambda>r. get0 r k) records))"
proof -
  let ?files = "zip names (map json_dump records)"
  let ?dumped = "\<lambda>r :: counts. map (\<lambda>(k, c). (py_str k, JInt c)) r"
  obtain printed merged where a: "aggregate dir ?files [] = Inr (printed, merged)"
    using aggregate_returns [OF zip_dumped_passes] by blast
  have "printed = []"
    using aggregate_result [OF a] by (simp add: zip_dumped_none_caught)
  then have a': "aggregate dir ?files [] = Inr ([], merged)" using a by simp
  have items: "concat (map (\<lambda>(name, c). doc_items c) ?files) = concat (map ?dumped records)"
    using len by (simp add: zip_dumped_items)
  have d: "distinct (map fst merged)" using a by (rule aggregate_merged)
  have "set (map fst merged) = set (item_keys (concat (map ?dumped records)))"
    using aggregate_merged(2) [OF a] items by simp
  also have "\<dots> = (\<Union>r \<in> set records. set (map fst r))"
    by (simp add: item_keys_concat item_keys_dumped comp_def)
  finally have keys: "set (map fst merged) = (\<Union>r \<in> set records. set (map fst r))" .
  have sums: "\<forall>k. get0 merged k = sum_list (map (\<lambda>r. get0 r k) records)"
  proof
    fix k
    have "get0 merged k = added (concat (map ?dumped records)) k"
      using aggregate_merged(3) [OF a] items by simp
    also have "\<dots> = sum_list (map (\<lambda>r. added (?dumped r) k) records)"
      by (simp add: added_concat comp_def)
    also have "\<dots> = sum_list (map (\<lambda>r. get0 r k) records)"
      using dist by (intro arg_cong [where f = sum_list] map_cong) (simp_all add: added_dumped)
    finally show "get0 merged k = sum_list (map (\<lambda>r. get0 r k) records)" .
  qed
  show ?thesis using a' d keys sums by blast
qed

text \<open>
  Claim C5: the merged mapping of the reducer holds, at every key of some record, the sum
  of the counts that the records have at the key, a record without the key adding 0, and
  it has no other key. The records are mappings with integer keys, stored under any
  names; the loop over them returns and reports no error. Records \<open>{1:2, 2:1}\<close> and
  \<open>{1:1, 3:4}\<close> merge to \<open>{1:3, 2:1, 3:4}\<close>. More generally, whenever the loop returns
  on a listing, the merged mapping holds at \<open>k\<close> the sum of what the items with key
  \<open>k\<close> of the documents add.
\<close>

theorem merged_counts_are_sums:
  "(length names = length records \<and> (\<forall>r \<in> set records. distinct (map fst r)) \<longrightarrow>
      (\<exists>merged.
         aggregate dir (zip names (map json_dump records)) [] = Inr ([], merged)
         \<and> distinct (map fst merged)
         \<and> (\<forall>k. map_of merged k
                   = (if \<exists>r \<in> set records. k \<in> set (map fst r)
                      then Some (sum_list (map (\<lambda>r. get0 r k) records))
                      else None))))
   \<and> aggregate dir [(a, json_dump [(1, 2), (2, 1)]), (b, json_dump [(1, 1), (3, 4)])] []
       = Inr ([], [(1, 3), (2, 1), (3, 4)])
   \<and> (aggregate dir files [] = Inr (printed, merged') \<longrightarrow>
        distinct (map fst merged')
        \<and> set (map fst merged') = set (item_keys (concat (map (\<lambda>(name, c). doc_items c) files)))
        \<and> (\<forall>k. get0 merged' k = added (concat (map (\<lambda>(name, c). doc_items c) files)) k))"
proof -
  have first: "length names = length records \<and> (\<forall>r \<in> set records. distinct (map fst r)) \<longrightarrow>
      (\<exists>merged.
         aggregate dir (zip names (map json_dump records)) [] = Inr ([], merged)
         \<and> distinct (map fst merged)
         \<and> (\<forall>k. map_of merged k
                   = (if \<exists>r \<in> set records. k \<in> set (map fst r)
                      then Some (sum_list (map (\<lambda>r. get0 r k) records))
                      else None)))"
  proof
    assume "length names = length records \<and> (\<forall>r \<in> set records. distinct (map fst r))"
    then obtain merged where m: "aggregate dir (zip names (map json_dump records)) [] = Inr ([], merged)"
      and d: "distinct (map fst merged)"
      and keys: "set (map fst merged) = (\<Union>r \<in> set records. set (map fst r))"
      and sums: "\<forall>k. get0 merged k = sum_list (map (\<lambda>r. get0 r k) records)"
      using merged_records [of names records dir] by blast
    have "\<forall>k. map_of merged k
                   = (if \<exists>r \<in> set records. k \<in> set (map fst r)
                      then Some (sum_list (map (\<lambda>r. get0 r k) records))
                      else None)"
    proof
      fix k
      have "map_of merged k = (if k \<in> set (map fst merged) then Some (get0 merged k) else None)"
        by (rule map_of_get0)
      also have "\<dots> = (if \<exists>r \<in> set records. k \<in> set (map fst r)
                      then Some (sum_list (map (\<lambda>r. get0 r k) records))
                      else None)"
        using keys sums by auto
      finally show "map_of merged k
                   = (if \<exists>r \<in> set records. k \<in> set (map fst r)
                      then Some (sum_list (map (\<lambda>r. get0 r k) records))
                      else None)" .
    qed
    then show "\<exists>merged.
         aggregate dir (zip names (map json_dump records)) [] = Inr ([], merged)
         \<and> distinct (map fst merged)
         \<and> (\<forall>k. map_of merged k
                   = (if \<exists>r \<in> set records. k \<in> set (map fst r)
                      then Some (sum_list (map (\<lambda>r. get0 r k) records))
                      else None))"
      using m d by blast
  qed
  have d1: "json_dump [(1, 2), (2, 1)] = Doc (JObj [(''1'', JInt 2), (''2'', JInt 1)])"
    by code_simp
  have d2: "json_dump [(1, 1), (3, 4)] = Doc (JObj [(''1'', JInt 1), (''3'', JInt 4)])"
    by code_simp
  have one: "py_int ''1'' = Some 1" by code_simp
  have two: "py_int ''2'' = Some 2" by code_simp
  have three: "py_int ''3'' = Some 3" by code_simp
  have second: "aggregate dir [(a, json_dump [(1, 2), (2, 1)]), (b, json_dump [(1, 1), (3, 4)])] []
       = Inr ([], [(1, 3), (2, 1), (3, 4)])"
    by (simp add: d1 d2 one two three)
  have third: "aggregate dir files [] = Inr (printed, merged') \<longrightarrow>
        distinct (map fst merged')
        \<and> set (map fst merged') = set (item_keys (concat (map (\<lambda>(name, c). doc_items c) files)))
        \<and> (\<forall>k. get0 merged' k = added (concat (map (\<lambda>(name, c). doc_items c) files)) k)"
    using aggregate_merged by blast
  show ?thesis using first second third by (intro conjI)
qed

theorem merged_counts_are_sums_witness:
  "(\<exists>merged.
       aggregate ''project_path/outputs''
           (zip [''mapper_output_0.json'', ''mapper_output_1.json'']
                (map json_dump [[(1, 2), (2, 1)], [(1, 1), (3, 4)]])) []
         = Inr ([], merged)
       \<and> map_of merged 1 = Some 3 \<and> map_of merged 2 = Some 1 \<and> map_of merged 3 = Some 4
       \<and> map_of merged 5 = None)
   \<and> aggregate ''project_path/outputs''
         [(''x.json'', Text [''oops'']),
          (''y.json'', Doc (JObj [(''4'', JInt 2), (''04'', JBool True)]))] []
       = Inr ([''Error processing project_path/outputs/x.json''], [(4, 3)])
   \<and> added [(''4'', JInt 2), (''04'', JBool True)] 4 = 3"
proof -
  let ?records = "[[(1, 2), (2, 1)], [(1, 1), (3, 4)]] :: counts list"
  let ?names = "[''mapper_output_0.json'', ''mapper_output_1.json'']"
  let ?files = "[(''x.json'', Text [''oops'']),
                 (''y.json'', Doc (JObj [(''4'', JInt 2), (''04'', JBool True)]))]"
  have four: "py_int ''4'' = Some 4" "py_int ''04'' = Some 4" by code_simp+
  have path: "path_join ''project_path/outputs'' ''x.json'' = ''project_path/outputs/x.json''"
    by code_simp
  have ev: "aggregate ''project_path/outputs'' ?files []
              = Inr ([''Error processing project_path/outputs/x.json''], [(4, 3)])"
    by (simp add: four path)
  note t = merged_counts_are_sums [where names = ?names and records = ?records
      and dir = "''project_path/outputs''" and files = ?files
      and printed = "[''Error processing project_path/outputs/x.json'']"
      and merged' = "[(4, 3)]"]
  have h: "length ?names = length ?records \<and> (\<forall>r \<in> set ?records. distinct (map fst r))"
    by simp
  obtain merged where m: "aggregate ''project_path/outputs'' (zip ?names (map json_dump ?records)) []
         = Inr ([], merged)"
    and look: "\<forall>k. map_of merged k
                   = (if \<exists>r \<in> set ?records. k \<in> set (map fst r)
                      then Some (sum_list (map (\<lambda>r. get0 r k) ?records))
                      else None)"
    using t h by blast
  have l1: "map_of merged 1 = Some 3" using look by (simp add: get0_def)
  have l2: "map_of merged 2 = Some 1" using look by (simp add: get0_def)
  have l3: "map_of merged 3 = Some 4" using look by (simp add: get0_def)
  have l5: "map_of merged 5 = None" using look by simp
  have "\<forall>k. get0 [(4, 3)] k = added (concat (map (\<lambda>(name, c). doc_items c) ?files)) k"
    using t ev by blast
  then have "get0 [(4, 3)] 4 = added (concat (map (\<lambda>(name, c). doc_items c) ?files)) 4"
    by blast
  then have a: "added [(''4'', JInt 2), (''04'', JBool True)] 4 = 3"
    by (simp add: get0_def)
  show ?thesis using m l1 l2 l3 l5 ev a by blast
qed

subsection \<open>The order of the records\<close>

lemma mset_concat_map:
  "mset xs = mset ys \<Longrightarrow> mset (concat (map g xs)) = mset (concat (map g ys))"
proof -
  assume eq: "mset xs = mset ys"
  have "mset (concat (map g zs)) = sum_mset (image_mset (\<lambda>z. mset (g z)) (mset zs))" for zs
    by (induction zs) simp_all
  then show ?thesis using eq by simp
qed

lemma added_mset: "mset xs = mset ys \<Longrightarrow> added xs k = added ys k"
proof -
  assume eq: "mset xs = mset ys"
  have "added zs k
          = sum_mset (image_mset (\<lambda>item. case amount (snd item) of None \<Rightarrow> 0 | Some c \<Rightarrow> c)
                        (filter_mset (\<lambda>item. py_int (fst item) = Some k) (mset zs)))" for zs
    by (induction zs) (simp_all add: added_Nil added_Cons)
  then show ?thesis using eq by simp
qed

lemma item_keys_mset: "mset xs = mset ys \<Longrightarrow> set (item_keys xs) = set (item_keys ys)"
proof -
  assume "mset xs = mset ys"
  then have "set xs = set ys" by (rule mset_eq_setD)
  then show ?thesis by (simp add: set_item_keys)
qed

lemma aggregate_permuted:
  assumes perm: "mset files' = mset files"
    and a: "aggregate dir files [] = Inr (printed, merged)"
  shows "\<exists>printed' merged'.
           aggregate dir files' [] = Inr (printed', merged')
           \<and> set merged' = set merged \<and> mset printed' = mset printed"
proof -
  let ?items = "\<lambda>fs :: listing. concat (map (\<lambda>(name, c). doc_items c) fs)"
  have same: "set files' = set files" using perm by (rule mset_eq_setD)
  have "list_all (\<lambda>(name, c). passes c) files" using aggregate_result [OF a] by blast
  then have "list_all (\<lambda>(name, c). passes c) files'" using same by (simp add: list_all_iff)
  then obtain printed' merged' where a': "aggregate dir files' [] = Inr (printed', merged')"
    using aggregate_returns by blast
  have items: "mset (?items files') = mset (?items files)"
    using perm by (rule mset_concat_map)
  have d: "distinct (map fst merged)" and d': "distinct (map fst merged')"
    using a a' aggregate_merged(1) by blast+
  have keys: "set (map fst merged') = set (map fst merged)"
    using aggregate_merged(2) [OF a] aggregate_merged(2) [OF a'] item_keys_mset [OF items]
    by simp
  have sums: "get0 merged' k = get0 merged k" for k
    using aggregate_merged(3) [OF a] aggregate_merged(3) [OF a'] added_mset [OF items]
    by simp
  have "map_of merged' = map_of merged"
  proof
    fix k
    show "map_of merged' k = map_of merged k"
      using keys sums by (simp add: map_of_get0 del: set_map)
  qed
  then have entries: "set merged' = set merged"
    using d d' by (simp add: map_of_inject_set)
  have p: "printed = map (\<lambda>(name, c). ''Error processing '' @ path_join dir name)
                   (filter (\<lambda>(name, c). isl (json_load c)) files)"
    and p': "printed' = map (\<lambda>(name, c). ''Error processing '' @ path_join dir name)
                   (filter (\<lambda>(name, c). isl (json_load c)) files')"
    using aggregate_result [OF a] aggregate_result [OF a'] by blast+
  have "mset printed' = mset printed"
    using perm by (simp add: p p')
  then show ?thesis using a' entries by blast
qed

text \<open>
  Claim C9: merging the records in another order gives the same set of entries. For every
  listing on which the loop of the reducer returns and every permutation of it, the loop
  returns on the permutation with a merged mapping of the same entries, and it prints the
  same lines. A listing on which the loop raises has no permutation on which it returns.
\<close>

theorem merge_order_independent:
  "(mset files' = mset files \<and> aggregate dir files [] = Inr (printed, merged) \<longrightarrow>
      (\<exists>printed' merged'.
         aggregate dir files' [] = Inr (printed', merged')
         \<and> set merged' = set merged \<and> mset printed' = mset printed))
   \<and> (mset others' = mset others \<and> aggregate dir others [] = Inl e \<longrightarrow>
        (\<exists>e'. aggregate dir others' [] = Inl e'))"
proof -
  have first: "mset files' = mset files \<and> aggregate dir files [] = Inr (printed, merged) \<longrightarrow>
      (\<exists>printed' merged'.
         aggregate dir files' [] = Inr (printed', merged')
         \<and> set merged' = set merged \<and> mset printed' = mset printed)"
    using aggregate_permuted by blast
  have second: "mset others' = mset others \<and> aggregate dir others [] = Inl e \<longrightarrow>
        (\<exists>e'. aggregate dir others' [] = Inl e')"
  proof
    assume h: "mset others' = mset others \<and> aggregate dir others [] = Inl e"
    show "\<exists>e'. aggregate dir others' [] = Inl e'"
    proof (cases "aggregate dir others' []")
      case (Inl e')
      then show ?thesis by blast
    next
      case (Inr r)
      obtain printed' merged' where "r = (printed', merged')" by (cases r)
      then have "aggregate dir others' [] = Inr (printed', merged')" using Inr by simp
      moreover have "mset others = mset others'" using h by simp
      ultimately have "\<exists>p m. aggregate dir others [] = Inr (p, m)"
        using aggregate_permuted by blast
      then show ?thesis using h by simp
    qed
  qed
  show ?thesis using first second by (intro conjI)
qed

theorem merge_order_independent_witness:
  "aggregate ''project_path/outputs''
       [(''a.json'', Doc (JObj [(''1'', JInt 10)])),
        (''b.json'', Doc (JObj [(''2'', JInt 10), (''1'', JInt 1)]))] []
     = Inr ([], [(1, 11), (2, 10)])
   \<and> aggregate ''project_path/outputs''
       [(''b.json'', Doc (JObj [(''2'', JInt 10), (''1'', JInt 1)])),
        (''a.json'', Doc (JObj [(''1'', JInt 10)]))] []
     = Inr ([], [(2, 10), (1, 11)])
   \<and> (\<exists>printed' merged'.
         aggregate ''project_path/outputs''
           [(''b.json'', Doc (JObj [(''2'', JInt 10), (''1'', JInt 1)])),
            (''a.json'', Doc (JObj [(''1'', JInt 10)]))] []
           = Inr (printed', merged')
         \<and> set merged' = {(1, 11), (2, 10)} \<and> printed' = [])
   \<and> aggregate ''project_path/outputs''
       [(''a.json'', Doc (JArr [])), (''b.json'', Doc (JObj [(''x'', JInt 1)]))] []
     = Inl AttributeError
   \<and> (\<exists>e'. aggregate ''project_path/outputs''
              [(''b.json'', Doc (JObj [(''x'', JInt 1)])), (''a.json'', Doc (JArr []))] []
            = Inl e')"
proof -
  let ?a = "(''a.json'', Doc (JObj [(''1'', JInt 10)]))"
  let ?b = "(''b.json'', Doc (JObj [(''2'', JInt 10), (''1'', JInt 1)]))"
  let ?c = "(''a.json'', Doc (JArr []))"
  let ?d = "(''b.json'', Doc (JObj [(''x'', JInt 1)]))"
  have keys: "py_int ''1'' = Some 1" "py_int ''2'' = Some 2" "py_int ''x'' = None"
    by code_simp+
  have ab: "aggregate ''project_path/outputs'' [?a, ?b] [] = Inr ([], [(1, 11), (2, 10)])"
    by (simp add: keys)
  have ba: "aggregate ''project_path/outputs'' [?b, ?a] [] = Inr ([], [(2, 10), (1, 11)])"
    by (simp add: keys)
  have cd: "aggregate ''project_path/outputs'' [?c, ?d] [] = Inl AttributeError"
    by simp
  note t = merge_order_independent [where files = "[?a, ?b]" and files' = "[?b, ?a]"
      and dir = "''project_path/outputs''" and printed = "[]" and merged = "[(1, 11), (2, 10)]"
      and others = "[?c, ?d]" and others' = "[?d, ?c]" and e = AttributeError]
  have p1: "mset [?b, ?a] = mset [?a, ?b]" by simp
  have p2: "mset [?d, ?c] = mset [?c, ?d]" by simp
  obtain printed' merged' where r: "aggregate ''project_path/outputs'' [?b, ?a] [] = Inr (printed', merged')"
    and s: "set merged' = set [(1, 11), (2, 10)]" and m: "mset printed' = mset []"
    using t p1 ab by blast
  have c1: "\<exists>printed' merged'.
         aggregate ''project_path/outputs'' [?b, ?a] [] = Inr (printed', merged')
         \<and> set merged' = {(1, 11), (2, 10)} \<and> printed' = []"
    using r s m by auto
  have c2: "\<exists>e'. aggregate ''project_path/outputs'' [?d, ?c] [] = Inl e'"
    using t p2 cd by blast
  show ?thesis using ab ba c1 cd c2 by (intro conjI)
qed

subsection \<open>The reducer\<close>

lemma report_not_json: "\<not> matches_json ''final_output.txt''"
  by (simp add: matches_json_def suffix_def)

lemma put_file_again:
  "put_file l name c = Inr l' \<Longrightarrow> \<forall>e. c \<noteq> Unopenable e \<Longrightarrow> put_file l' name c = Inr l'"
proof (induction l arbitrary: l')
  case Nil
  then show ?case by (cases c) auto
next
  case (Cons a l)
  obtain n old where a: "a = (n, old)" by (cases a)
  show ?case
  proof (cases "n = name")
    case True
    then have "l' = (n, c) # l" using Cons.prems(1) a by (auto split: content.splits)
    then show ?thesis using True Cons.prems(2) by (cases c) auto
  next
    case False
    then obtain rest' where r: "put_file l name c = Inr rest'" and l': "l' = (n, old) # rest'"
      using Cons.prems(1) a by (auto split: sum.splits)
    have "put_file rest' name c = Inr rest'" using r Cons.prems(2) by (rule Cons.IH)
    then show ?thesis using False l' by simp
  qed
qed

lemma reducer_no_files:
  "mapper_files w = [] \<Longrightarrow>
     reducer w = Inr (print [''Error: No mapper output files found in the reducer directory. Run 'mapper' first.''] w)"
  by (simp add: reducer_def)

lemma reducer_Inr:
  assumes "reducer w = Inr w'" and "mapper_files w \<noteq> []"
  shows "\<exists>printed final_counts l.
           aggregate (REDUCER_DIR w) (mapper_files w) [] = Inr (printed, final_counts)
           \<and> write_raises w ''final_output.txt'' = None
           \<and> put_file (out_listing w) ''final_output.txt''
                 (Text (header # map output_line (top6 final_counts))) = Inr l
           \<and> w' = print ([''Reducer started...''] @ printed @ ['''', header]
                          @ map output_line (top6 final_counts)
                          @ ['''',
                             ''Final output saved to ''
                               @ path_join (REDUCER_DIR w) ''final_output.txt'',
                             ''Reducer finished.''])
                    (w\<lparr>out_listing := l\<rparr>)"
proof -
  obtain printed final_counts where a: "aggregate (REDUCER_DIR w) (mapper_files w) [] = Inr (printed, final_counts)"
    using assms by (auto simp: reducer_def split: sum.splits)
  obtain w1 where wr: "write_file w ''final_output.txt''
                         (Text (header # map output_line (top6 final_counts))) = Inr w1"
    using assms a by (auto simp: reducer_def split: sum.splits)
  obtain l where l: "put_file (out_listing w) ''final_output.txt''
                       (Text (header # map output_line (top6 final_counts))) = Inr l"
    and w1: "w1 = w\<lparr>out_listing := l\<rparr>" and nr: "write_raises w ''final_output.txt'' = None"
    using write_file_Inr [OF wr] by blast
  show ?thesis using assms a wr l w1 nr by (simp add: reducer_def)
qed

lemma reducer_returns:
  assumes "mapper_files w \<noteq> []"
    and "list_all (\<lambda>(name, c). passes c) (mapper_files w)"
    and "can_write w ''final_output.txt''"
  shows "\<exists>w'. reducer w = Inr w'"
proof -
  obtain printed final_counts where a: "aggregate (REDUCER_DIR w) (mapper_files w) [] = Inr (printed, final_counts)"
    using aggregate_returns [OF assms(2)] by blast
  obtain l where "write_file w ''final_output.txt''
                    (Text (header # map output_line (top6 final_counts))) = Inr (w\<lparr>out_listing := l\<rparr>)"
    using write_file_can_write [OF assms(3)] by blast
  then show ?thesis using assms(1) a by (simp add: reducer_def)
qed

lemma reducer_keeps_discovery:
  assumes "reducer w = Inr w'"
  shows "mapper_files w' = mapper_files w"
proof (cases "mapper_files w = []")
  case True
  then have "w' = print [''Error: No mapper output files found in the reducer directory. Run 'mapper' first.''] w"
    using assms by (simp add: reducer_no_files)
  then have "out_listing w' = out_listing w" by (simp add: print_def)
  then show ?thesis by (simp add: mapper_files_def)
next
  case False
  obtain printed final_counts l where
    l: "put_file (out_listing w) ''final_output.txt''
          (Text (header # map output_line (top6 final_counts))) = Inr l"
    and w': "w' = print ([''Reducer started...''] @ printed @ ['''', header]
                          @ map output_line (top6 final_counts)
                          @ ['''',
                             ''Final output saved to ''
                               @ path_join (REDUCER_DIR w) ''final_output.txt'',
                             ''Reducer finished.''])
                    (w\<lparr>out_listing := l\<rparr>)"
    using reducer_Inr [OF assms False] by blast
  have "filter (\<lambda>(n, c). matches_json n) l = filter (\<lambda>(n, c). matches_json n) (out_listing w)"
    using l report_not_json by (rule put_file_keeps_others)
  then show ?thesis using w' by (simp add: mapper_files_def print_def)
qed

lemma reducer_report:
  assumes "reducer w = Inr w'" and "mapper_files w \<noteq> []"
  shows "\<exists>printed final_counts.
           aggregate (REDUCER_DIR w) (mapper_files w) [] = Inr (printed, final_counts)
           \<and> report_of w' = Some (Text (header # map output_line (top6 final_counts)))"
proof -
  obtain printed final_counts l where
    a: "aggregate (REDUCER_DIR w) (mapper_files w) [] = Inr (printed, final_counts)"
    and l: "put_file (out_listing w) ''final_output.txt''
          (Text (header # map output_line (top6 final_counts))) = Inr l"
    and w': "w' = print ([''Reducer started...''] @ printed @ ['''', header]
                          @ map output_line (top6 final_counts)
                          @ ['''',
                             ''Final output saved to ''
                               @ path_join (REDUCER_DIR w) ''final_output.txt'',
                             ''Reducer finished.''])
                    (w\<lparr>out_listing := l\<rparr>)"
    using reducer_Inr [OF assms] by blast
  have "map_of l = (map_of (out_listing w))(''final_output.txt'' \<mapsto> Text (header # map output_line (top6 final_counts)))"
    using l by (rule put_file_map_of)
  then have "report_of w' = Some (Text (header # map output_line (top6 final_counts)))"
    using w' by (simp add: report_of_def print_def)
  then show ?thesis using a by blast
qed

lemma reducer_again:
  assumes "reducer w = Inr w'" and "mapper_files w \<noteq> []"
  shows "\<exists>w''. reducer w' = Inr w'' \<and> out_listing w'' = out_listing w'"
proof -
  obtain printed final_counts l where
    a: "aggregate (REDUCER_DIR w) (mapper_files w) [] = Inr (printed, final_counts)"
    and nr: "write_raises w ''final_output.txt'' = None"
    and l: "put_file (out_listing w) ''final_output.txt''
          (Text (header # map output_line (top6 final_counts))) = Inr l"
    and w': "w' = print ([''Reducer started...''] @ printed @ ['''', header]
                          @ map output_line (top6 final_counts)
                          @ ['''',
                             ''Final output saved to ''
                               @ path_join (REDUCER_DIR w) ''final_output.txt'',
                             ''Reducer finished.''])
                    (w\<lparr>out_listing := l\<rparr>)"
    using reducer_Inr [OF assms] by blast
  have mf: "mapper_files w' = mapper_files w" using assms(1) by (rule reducer_keeps_discovery)
  have dir: "REDUCER_DIR w' = REDUCER_DIR w" using w' by (simp add: REDUCER_DIR_def print_def)
  have out: "out_listing w' = l" and wr: "write_raises w' = write_raises w"
    using w' by (simp_all add: print_def)
  have again: "put_file l ''final_output.txt''
                 (Text (header # map output_line (top6 final_counts))) = Inr l"
    using l by (rule put_file_again) simp
  have "write_file w' ''final_output.txt'' (Text (header # map output_line (top6 final_counts)))
          = Inr (w'\<lparr>out_listing := l\<rparr>)"
    using again nr out wr by (simp add: write_file_def)
  then have "\<exists>w''. reducer w' = Inr w'' \<and> out_listing w'' = l"
    using assms(2) mf dir a by (simp add: reducer_def print_def)
  then show ?thesis using out by simp
qed

subsection \<open>The report is not a record\<close>

lemma mapper_files_names:
  "(name, c) \<in> set (mapper_files w) \<Longrightarrow> suffix ''.json'' name \<and> name \<noteq> ''final_output.txt''"
proof -
  assume "(name, c) \<in> set (mapper_files w)"
  then have m: "matches_json name" by (simp add: mapper_files_def)
  then have "suffix ''.json'' name" by (simp add: matches_json_def)
  moreover have "name \<noteq> ''final_output.txt''" using m report_not_json by blast
  ultimately show ?thesis by blast
qed

text \<open>
  Claim C10: the reducer never takes its report for a record. \<^verbatim>\<open>final_output.txt\<close> does
  not match the pattern \<^verbatim>\<open>*.json\<close>; every file that the reducer discovers has a name
  that ends in \<^verbatim>\<open>.json\<close> and is not the name of the report; a run of the reducer that
  returns leaves the discovered files as they were; and a second run over the same
  directory returns and leaves the directory as the first run left it.
\<close>

theorem report_never_discovered:
  "\<not> matches_json ''final_output.txt''
   \<and> (\<forall>(name, c) \<in> set (mapper_files w). suffix ''.json'' name \<and> name \<noteq> ''final_output.txt'')
   \<and> (reducer w = Inr w' \<longrightarrow> mapper_files w' = mapper_files w)
   \<and> (reducer w = Inr w' \<and> mapper_files w \<noteq> [] \<longrightarrow>
        (\<exists>printed final_counts.
           aggregate (REDUCER_DIR w) (mapper_files w) [] = Inr (printed, final_counts)
           \<and> report_of w' = Some (Text (header # map output_line (top6 final_counts))))
        \<and> (\<exists>w''. reducer w' = Inr w'' \<and> out_listing w'' = out_listing w'))"
proof -
  have first: "\<not> matches_json ''final_output.txt''" by (rule report_not_json)
  have second: "\<forall>(name, c) \<in> set (mapper_files w). suffix ''.json'' name \<and> name \<noteq> ''final_output.txt''"
    using mapper_files_names by blast
  have third: "reducer w = Inr w' \<longrightarrow> mapper_files w' = mapper_files w"
    using reducer_keeps_discovery by blast
  have fourth: "reducer w = Inr w' \<and> mapper_files w \<noteq> [] \<longrightarrow>
        (\<exists>printed final_counts.
           aggregate (REDUCER_DIR w) (mapper_files w) [] = Inr (printed, final_counts)
           \<and> report_of w' = Some (Text (header # map output_line (top6 final_counts))))
        \<and> (\<exists>w''. reducer w' = Inr w'' \<and> out_listing w'' = out_listing w')"
    using reducer_report reducer_again by blast
  show ?thesis using first second third fourth by (intro conjI)
qed

theorem report_never_discovered_witness:
  "mapper_files (example_world []
       [(''mapper_output_0.json'', Doc (JObj [(''7'', JInt 2)])),
        (''final_output.txt'', Text [''an earlier report'']),
        (''notes.txt'', Text [])])
     = [(''mapper_output_0.json'', Doc (JObj [(''7'', JInt 2)]))]
   \<and> (\<exists>w'. reducer (example_world []
                [(''mapper_output_0.json'', Doc (JObj [(''7'', JInt 2)])),
                 (''final_output.txt'', Text [''an earlier report'']),
                 (''notes.txt'', Text [])]) = Inr w'
          \<and> mapper_files w' = [(''mapper_output_0.json'', Doc (JObj [(''7'', JInt 2)]))]
          \<and> report_of w' = Some (Text [''Top 6 elements with the highest frequencies:'',
                                        ''Number: 7, Frequency: 2''])
          \<and> (\<exists>w''. reducer w' = Inr w'' \<and> out_listing w'' = out_listing w'))"
proof -
  let ?l = "[(''mapper_output_0.json'', Doc (JObj [(''7'', JInt 2)])),
             (''final_output.txt'', Text [''an earlier report'']),
             (''notes.txt'', Text [])]"
  let ?w = "example_world [] ?l"
  have m: "matches_json ''mapper_output_0.json''" "\<not> matches_json ''notes.txt''"
    by (simp_all add: matches_json_def hidden_def suffix_def)
  have mf: "mapper_files ?w = [(''mapper_output_0.json'', Doc (JObj [(''7'', JInt 2)]))]"
    using m report_not_json by (simp add: mapper_files_def example_world_def)
  have seven: "py_int ''7'' = Some 7" by code_simp
  have item: "item_ok (''7'', JInt 2)" by (simp add: item_ok_def seven)
  have cw: "can_write ?w ''final_output.txt''"
    by (simp add: can_write_def example_world_def no_write_error_def)
  have "list_all (\<lambda>(name, c). passes c) (mapper_files ?w)" by (simp add: mf item)
  then obtain w' where r: "reducer ?w = Inr w'"
    using reducer_returns [of ?w] mf cw by auto
  have agg: "aggregate (REDUCER_DIR ?w) (mapper_files ?w) [] = Inr ([], [(7, 2)])"
    by (simp add: mf seven)
  have lines: "header # map output_line (top6 [(7, 2)])
                 = [''Top 6 elements with the highest frequencies:'', ''Number: 7, Frequency: 2'']"
    by code_simp
  note t = report_never_discovered [of ?w w']
  have c3: "mapper_files w' = [(''mapper_output_0.json'', Doc (JObj [(''7'', JInt 2)]))]"
    using t r mf by simp
  have ne: "mapper_files ?w \<noteq> []" by (simp add: mf)
  have "\<exists>printed final_counts.
           aggregate (REDUCER_DIR ?w) (mapper_files ?w) [] = Inr (printed, final_counts)
           \<and> report_of w' = Some (Text (header # map output_line (top6 final_counts)))"
    using t r ne by blast
  then have "report_of w' = Some (Text (header # map output_line (top6 [(7, 2)])))"
    using agg by auto
  then have c4: "report_of w' = Some (Text [''Top 6 elements with the highest frequencies:'',
                                        ''Number: 7, Frequency: 2''])"
    by (simp only: lines)
  have c5: "\<exists>w''. reducer w' = Inr w'' \<and> out_listing w'' = out_listing w'"
    using t r ne by blast
  show ?thesis using mf r c3 c4 c5 by blast
qed

subsection \<open>A reducer without records\<close>

lemma aggregate_all_caught:
  "\<forall>(name, c) \<in> set files. json_load c = Inl JSONDecodeError \<or> json_load c = Inl FileNotFoundError \<Longrightarrow>
     aggregate dir files fc
       = Inr (map (\<lambda>(name, c). ''Error processing '' @ path_join dir name) files, fc)"
proof (induction files)
  case Nil
  then show ?case by simp
next
  case (Cons a files)
  obtain name c where a: "a = (name, c)" by (cases a)
  have c: "json_load c = Inl JSONDecodeError \<or> json_load c = Inl FileNotFoundError"
    using Cons.prems a by simp
  have "aggregate dir files fc
          = Inr (map (\<lambda>(name, c). ''Error processing '' @ path_join dir name) files, fc)"
    using Cons by simp
  then show ?case using a c by auto
qed

lemma top6_Nil: "top6 [] = []"
  by (simp add: top6_def sorted_counts_def)

lemma reducer_all_caught:
  assumes ne: "mapper_files w \<noteq> []"
    and caught: "\<forall>(name, c) \<in> set (mapper_files w).
                   json_load c = Inl JSONDecodeError \<or> json_load c = Inl FileNotFoundError"
    and cw: "can_write w ''final_output.txt''"
  shows "\<exists>w'. reducer w = Inr w'
           \<and> report_of w' = Some (Text [''Top 6 elements with the highest frequencies:''])
           \<and> mapper_files w' = mapper_files w
           \<and> console w'
               = console w @ [''Reducer started...'']
                 @ map (\<lambda>(name, c). ''Error processing '' @ path_join (REDUCER_DIR w) name)
                     (mapper_files w)
                 @ ['''', ''Top 6 elements with the highest frequencies:'', '''',
                    ''Final output saved to '' @ path_join (REDUCER_DIR w) ''final_output.txt'',
                    ''Reducer finished.'']"
proof -
  let ?printed = "map (\<lambda>(name, c). ''Error processing '' @ path_join (REDUCER_DIR w) name)
                    (mapper_files w)"
  have a: "aggregate (REDUCER_DIR w) (mapper_files w) [] = Inr (?printed, [])"
    using caught by (rule aggregate_all_caught)
  obtain l where l: "put_file (out_listing w) ''final_output.txt'' (Text [header]) = Inr l"
    and wr: "write_file w ''final_output.txt'' (Text [header]) = Inr (w\<lparr>out_listing := l\<rparr>)"
    using write_file_can_write [OF cw] by blast
  let ?w' = "print ([''Reducer started...''] @ ?printed @ ['''', header]
                     @ ['''', ''Final output saved to '' @ path_join (REDUCER_DIR w) ''final_output.txt'',
                        ''Reducer finished.''])
               (w\<lparr>out_listing := l\<rparr>)"
  have r: "reducer w = Inr ?w'"
    using ne a wr by (simp add: reducer_def top6_Nil)
  have "map_of l = (map_of (out_listing w))(''final_output.txt'' \<mapsto> Text [header])"
    using l by (rule put_file_map_of)
  then have rep: "report_of ?w' = Some (Text [''Top 6 elements with the highest frequencies:''])"
    by (simp add: report_of_def print_def header_def)
  have mf: "mapper_files ?w' = mapper_files w"
    using r by (rule reducer_keeps_discovery)
  have con: "console ?w'
               = console w @ [''Reducer started...''] @ ?printed
                 @ ['''', ''Top 6 elements with the highest frequencies:'', '''',
                    ''Final output saved to '' @ path_join (REDUCER_DIR w) ''final_output.txt'',
                    ''Reducer finished.'']"
    by (simp add: print_def header_def)
  show ?thesis using r rep mf con by blast
qed

lemma reducer_cannot_write:
  assumes ne: "mapper_files w \<noteq> []"
    and pass: "list_all (\<lambda>(name, c). passes c) (mapper_files w)"
    and cw: "\<not> can_write w ''final_output.txt''"
  shows "\<exists>e. reducer w = Inl e"
proof -
  obtain printed final_counts where a: "aggregate (REDUCER_DIR w) (mapper_files w) [] = Inr (printed, final_counts)"
    using aggregate_returns [OF pass] by blast
  let ?c = "Text (header # map output_line (top6 final_counts))"
  have "\<exists>e. write_file w ''final_output.txt'' ?c = Inl e"
  proof (cases "write_raises w ''final_output.txt''")
    case (Some e)
    then have "write_file w ''final_output.txt'' ?c = Inl e" by (simp add: write_file_raises)
    then show ?thesis by blast
  next
    case None
    then obtain e where "map_of (out_listing w) ''final_output.txt'' = Some (Unopenable e)"
      using cw by (auto simp: can_write_def split: option.splits content.splits)
    then have "write_file w ''final_output.txt'' ?c = Inl e" using None by (simp add: write_file_raises)
    then show ?thesis by blast
  qed
  then obtain e where "write_file w ''final_output.txt'' ?c = Inl e" by blast
  then show ?thesis using ne a by (simp add: reducer_def)
qed

lemma caught_passes:
  "\<forall>(name, c) \<in> set files. json_load c = Inl JSONDecodeError \<or> json_load c = Inl FileNotFoundError \<Longrightarrow>
     list_all (\<lambda>(name, c). passes c) files"
proof -
  assume h: "\<forall>(name, c) \<in> set files. json_load c = Inl JSONDecodeError \<or> json_load c = Inl FileNotFoundError"
  have "passes c" if "json_load c = Inl JSONDecodeError \<or> json_load c = Inl FileNotFoundError" for c
    using that by (cases c) auto
  then show ?thesis using h by (auto simp: list_all_iff)
qed

text \<open>
  Claim C2 says that the reducer writes no report when it obtains no valid record, also
  when record files are discovered and every one of them fails to decode. The reducer
  returns early only when it discovers no file. Here the output directory holds one
  record that is not a JSON document: the reducer reports the error for the file and
  writes a report that holds the title line and no entry.
\<close>

theorem undecodable_records_still_reported:
  "mapper_files (example_world [] [(''mapper_output_0.json'', Text [''{''])])
     = [(''mapper_output_0.json'', Text [''{''])]
   \<and> json_load (Text [''{'']) = Inl JSONDecodeError
   \<and> report_of (example_world [] [(''mapper_output_0.json'', Text [''{''])]) = None
   \<and> map_sum id report_of (reducer (example_world [] [(''mapper_output_0.json'', Text [''{''])]))
       = Inr (Some (Text [''Top 6 elements with the highest frequencies:'']))
   \<and> map_sum id console (reducer (example_world [] [(''mapper_output_0.json'', Text [''{''])]))
       = Inr [''Reducer started...'',
              ''Error processing project_path/outputs/mapper_output_0.json'',
              '''', ''Top 6 elements with the highest frequencies:'', '''',
              ''Final output saved to project_path/outputs/final_output.txt'',
              ''Reducer finished.'']"
  by code_simp

text \<open>
  Claim C2 as the code has it. When the reducer discovers no record file it prints that
  none was found and returns, and the output directory is as it was. When it discovers
  files and each of them raises \<^verbatim>\<open>JSONDecodeError\<close> or \<^verbatim>\<open>FileNotFoundError\<close>, it prints
  \<^verbatim>\<open>Error processing\<close> for each of them, says nothing else about the merge, and writes a
  report that holds the title line only, provided that the report can be written; when
  the report cannot be written, the exception of the write leaves the reducer.
\<close>

theorem report_without_records:
  "(mapper_files u = [] \<longrightarrow>
      (\<exists>u'. reducer u = Inr u' \<and> out_listing u' = out_listing u
            \<and> console u'
                = console u
                  @ [''Error: No mapper output files found in the reducer directory. Run 'mapper' first.'']))
   \<and> (mapper_files w \<noteq> []
          \<and> (\<forall>(name, c) \<in> set (mapper_files w).
                json_load c = Inl JSONDecodeError \<or> json_load c = Inl FileNotFoundError)
          \<and> can_write w ''final_output.txt'' \<longrightarrow>
        (\<exists>w'. reducer w = Inr w'
           \<and> report_of w' = Some (Text [''Top 6 elements with the highest frequencies:''])
           \<and> mapper_files w' = mapper_files w
           \<and> console w'
               = console w @ [''Reducer started...'']
                 @ map (\<lambda>(name, c). ''Error processing '' @ path_join (REDUCER_DIR w) name)
                     (mapper_files w)
                 @ ['''', ''Top 6 elements with the highest frequencies:'', '''',
                    ''Final output saved to '' @ path_join (REDUCER_DIR w) ''final_output.txt'',
                    ''Reducer finished.'']))
   \<and> (mapper_files v \<noteq> []
          \<and> (\<forall>(name, c) \<in> set (mapper_files v).
                json_load c = Inl JSONDecodeError \<or> json_load c = Inl FileNotFoundError)
          \<and> \<not> can_write v ''final_output.txt'' \<longrightarrow>
        (\<exists>e. reducer v = Inl e))"
proof -
  have first: "mapper_files u = [] \<longrightarrow>
      (\<exists>u'. reducer u = Inr u' \<and> out_listing u' = out_listing u
            \<and> console u'
                = console u
                  @ [''Error: No mapper output files found in the reducer directory. Run 'mapper' first.''])"
    by (simp add: reducer_no_files print_def)
  have second: "mapper_files w \<noteq> []
          \<and> (\<forall>(name, c) \<in> set (mapper_files w).
                json_load c = Inl JSONDecodeError \<or> json_load c = Inl FileNotFoundError)
          \<and> can_write w ''final_output.txt'' \<longrightarrow>
        (\<exists>w'. reducer w = Inr w'
           \<and> report_of w' = Some (Text [''Top 6 elements with the highest frequencies:''])
           \<and> mapper_files w' = mapper_files w
           \<and> console w'
               = console w @ [''Reducer started...'']
                 @ map (\<lambda>(name, c). ''Error processing '' @ path_join (REDUCER_DIR w) name)
                     (mapper_files w)
                 @ ['''', ''Top 6 elements with the highest frequencies:'', '''',
                    ''Final output saved to '' @ path_join (REDUCER_DIR w) ''final_output.txt'',
                    ''Reducer finished.''])"
    using reducer_all_caught [of w] by blast
  have third: "mapper_files v \<noteq> []
          \<and> (\<forall>(name, c) \<in> set (mapper_files v).
                json_load c = Inl JSONDecodeError \<or> json_load c = Inl FileNotFoundError)
          \<and> \<not> can_write v ''final_output.txt'' \<longrightarrow>
        (\<exists>e. reducer v = Inl e)"
    using reducer_cannot_write [of v] caught_passes [of "mapper_files v"] by blast
  show ?thesis using first second third by (intro conjI)
qed

theorem report_without_records_witness:
  "mapper_files (example_world [] [(''notes.txt'', Text [])]) = []
   \<and> (\<exists>u'. reducer (example_world [] [(''notes.txt'', Text [])]) = Inr u'
            \<and> out_listing u' = [(''notes.txt'', Text [])]
            \<and> console u'
                = [''Error: No mapper output files found in the reducer directory. Run 'mapper' first.''])
   \<and> (\<exists>w'. reducer (example_world []
                [(''mapper_output_0.json'', Text [''{'']),
                 (''mapper_output_1.json'', Unopenable FileNotFoundError)]) = Inr w'
          \<and> report_of w' = Some (Text [''Top 6 elements with the highest frequencies:''])
          \<and> console w'
              = [''Reducer started...'',
                 ''Error processing project_path/outputs/mapper_output_0.json'',
                 ''Error processing project_path/outputs/mapper_output_1.json'',
                 '''', ''Top 6 elements with the highest frequencies:'', '''',
                 ''Final output saved to project_path/outputs/final_output.txt'',
                 ''Reducer finished.''])
   \<and> (\<exists>e. reducer (example_world []
                [(''mapper_output_0.json'', Text []),
                 (''final_output.txt'', Unopenable IsADirectoryError)]) = Inl e)"
proof -
  let ?u = "example_world [] [(''notes.txt'', Text [])]"
  let ?w = "example_world []
              [(''mapper_output_0.json'', Text [''{'']),
               (''mapper_output_1.json'', Unopenable FileNotFoundError)]"
  let ?v = "example_world []
              [(''mapper_output_0.json'', Text []),
               (''final_output.txt'', Unopenable IsADirectoryError)]"
  have mu: "mapper_files ?u = []" by code_simp
  have mw: "mapper_files ?w = [(''mapper_output_0.json'', Text [''{'']),
                               (''mapper_output_1.json'', Unopenable FileNotFoundError)]"
    by code_simp
  have mv: "mapper_files ?v = [(''mapper_output_0.json'', Text [])]" by code_simp
  have cw: "can_write ?w ''final_output.txt''" by code_simp
  have cv: "\<not> can_write ?v ''final_output.txt''" by code_simp
  have fields: "out_listing ?u = [(''notes.txt'', Text [])]" "console ?u = []" "console ?w = []"
    by (simp_all add: example_world_def)
  have paths: "path_join (REDUCER_DIR ?w) ''mapper_output_0.json''
                 = ''project_path/outputs/mapper_output_0.json''"
      "path_join (REDUCER_DIR ?w) ''mapper_output_1.json''
                 = ''project_path/outputs/mapper_output_1.json''"
      "path_join (REDUCER_DIR ?w) ''final_output.txt''
                 = ''project_path/outputs/final_output.txt''"
    by code_simp+
  note t = report_without_records [of ?u ?w ?v]
  have c1: "\<exists>u'. reducer ?u = Inr u' \<and> out_listing u' = [(''notes.txt'', Text [])]
            \<and> console u'
                = [''Error: No mapper output files found in the reducer directory. Run 'mapper' first.'']"
    using t mu by (simp add: fields)
  have hw: "mapper_files ?w \<noteq> []
          \<and> (\<forall>(name, c) \<in> set (mapper_files ?w).
                json_load c = Inl JSONDecodeError \<or> json_load c = Inl FileNotFoundError)
          \<and> can_write ?w ''final_output.txt''"
    using cw by (simp add: mw)
  have "\<exists>w'. reducer ?w = Inr w'
           \<and> report_of w' = Some (Text [''Top 6 elements with the highest frequencies:''])
           \<and> mapper_files w' = mapper_files ?w
           \<and> console w'
               = console ?w @ [''Reducer started...'']
                 @ map (\<lambda>(name, c). ''Error processing '' @ path_join (REDUCER_DIR ?w) name)
                     (mapper_files ?w)
                 @ ['''', ''Top 6 elements with the highest frequencies:'', '''',
                    ''Final output saved to '' @ path_join (REDUCER_DIR ?w) ''final_output.txt'',
                    ''Reducer finished.'']"
    using t hw by blast
  then have c2: "\<exists>w'. reducer ?w = Inr w'
          \<and> report_of w' = Some (Text [''Top 6 elements with the highest frequencies:''])
          \<and> console w'
              = [''Reducer started...'',
                 ''Error processing project_path/outputs/mapper_output_0.json'',
                 ''Error processing project_path/outputs/mapper_output_1.json'',
                 '''', ''Top 6 elements with the highest frequencies:'', '''',
                 ''Final output saved to project_path/outputs/final_output.txt'',
                 ''Reducer finished.'']"
    by (simp only: mw fields paths list.map prod.case append.simps) blast
  have hv: "mapper_files ?v \<noteq> []
          \<and> (\<forall>(name, c) \<in> set (mapper_files ?v).
                json_load c = Inl JSONDecodeError \<or> json_load c = Inl FileNotFoundError)
          \<and> \<not> can_write ?v ''final_output.txt''"
    using cv by (simp add: mv)
  have c3: "\<exists>e. reducer ?v = Inl e" using t hv by blast
  show ?thesis using mu c1 c2 c3 by (intro conjI)
qed

end
